theory Spec2Isabelle
  imports Main
begin

section \<open>Text primitives of the host language\<close>

text \<open>
  The script is Python 3. A Python string is a sequence of Unicode code points. The text
  of the build log, in which the progress pattern is searched, is modelled so: a code
  point below 128 is \<open>Ascii\<close> of its character, any other is \<open>Wide\<close> of its number.
  File names, configuration values and message texts are modelled as \<^typ>\<open>string\<close>,
  the bytes of their UTF-8 encoding, with the ASCII part of Python's character classes
  (\<^verbatim>\<open>str.lower\<close>, \<^verbatim>\<open>str.strip\<close>, \<^verbatim>\<open>str.title\<close>).
\<close>

datatype uchar = Ascii char | Wide nat

type_synonym ustring = "uchar list"

fun ustr :: "string \<Rightarrow> ustring" where
  "ustr [] = []"
| "ustr (c # cs) = Ascii c # ustr cs"

text \<open>
  \<^verbatim>\<open>\d\<close> in a pattern on strings matches every character with the decimal-digit
  property of the interpreter's Unicode database. Below 128 these are \<^verbatim>\<open>0\<close> to
  \<^verbatim>\<open>9\<close>; for the other code points the property is the parameter \<open>decimal\<close>, the
  database not being part of the script.
\<close>

definition is_digit :: "(nat \<Rightarrow> bool) \<Rightarrow> uchar \<Rightarrow> bool" where
  "is_digit decimal c =
     (case c of
        Ascii a \<Rightarrow> a \<in> set ''0123456789''
      | Wide n \<Rightarrow> decimal n)"

definition LF :: uchar where
  "LF = Ascii (CHR 0x0A)"

definition CR :: uchar where
  "CR = Ascii (CHR 0x0D)"

text \<open>
  \<^verbatim>\<open>open(path, 'r')\<close> reads in universal-newlines mode: \<^verbatim>\<open>\r\n\<close> and a lone \<^verbatim>\<open>\r\<close>
  arrive as \<^verbatim>\<open>\n\<close>.
\<close>

fun universal_newlines :: "ustring \<Rightarrow> ustring" where
  "universal_newlines [] = []"
| "universal_newlines [c] = [if c = CR then LF else c]"
| "universal_newlines (c # d # cs) =
     (if c = CR \<and> d = LF then LF # universal_newlines cs
      else if c = CR then LF # universal_newlines (d # cs)
      else c # universal_newlines (d # cs))"

text \<open>\<^verbatim>\<open>f.readlines()\<close>: the lines of the text, each keeping its terminating newline.\<close>

fun split_keep :: "ustring \<Rightarrow> ustring list" where
  "split_keep [] = []"
| "split_keep (c # cs) =
     (if c = LF then [c] # split_keep cs
      else (case split_keep cs of
              [] \<Rightarrow> [[c]]
            | l # ls \<Rightarrow> (c # l) # ls))"

definition readlines :: "ustring \<Rightarrow> ustring list" where
  "readlines content = split_keep (universal_newlines content)"

section \<open>The progress pattern\<close>

text \<open>
  \<^verbatim>\<open>re.search(r'(\d+)% (\d+/\d+)', line)\<close>. The matcher tries every start position from
  the left; at one position each \<^verbatim>\<open>\d+\<close> is greedy, and giving digits back never helps,
  because the character that has to follow (\<^verbatim>\<open>%\<close>, \<^verbatim>\<open>/\<close>) is not a digit. So a
  match at a position takes the whole run of digits each time.
\<close>

definition match_here :: "(nat \<Rightarrow> bool) \<Rightarrow> ustring \<Rightarrow> (ustring \<times> ustring) option" where
  "match_here decimal s =
     (let p = takeWhile (is_digit decimal) s; r = dropWhile (is_digit decimal) s in
      if p = [] then None
      else (case r of
              a # b # r2 \<Rightarrow>
                if a = Ascii CHR ''%'' \<and> b = Ascii CHR '' '' then
                  (let d = takeWhile (is_digit decimal) r2;
                       r3 = dropWhile (is_digit decimal) r2 in
                   if d = [] then None
                   else (case r3 of
                           e # r4 \<Rightarrow>
                             if e = Ascii CHR ''/'' then
                               (let t = takeWhile (is_digit decimal) r4 in
                                if t = [] then None else Some (p, d @ ustr ''/'' @ t))
                             else None
                         | [] \<Rightarrow> None))
                else None
            | _ \<Rightarrow> None))"

fun re_search :: "(nat \<Rightarrow> bool) \<Rightarrow> ustring \<Rightarrow> (ustring \<times> ustring) option" where
  "re_search decimal [] = None"
| "re_search decimal (c # cs) =
     (case match_here decimal (c # cs) of
        Some m \<Rightarrow> Some m
      | None \<Rightarrow> re_search decimal cs)"

text \<open>
  What the pattern means, independently of the matcher. A text starts with a progress
  \<open>(p, d, t)\<close> when it is \<open>p\<close>, \<^verbatim>\<open>% \<close>, \<open>d\<close>, \<^verbatim>\<open>/\<close>, \<open>t\<close> and a rest, the three
  being non-empty runs of digits. A line has a progress when some suffix of it starts
  with one.
\<close>

definition all_digits :: "(nat \<Rightarrow> bool) \<Rightarrow> ustring \<Rightarrow> bool" where
  "all_digits decimal s = (s \<noteq> [] \<and> list_all (is_digit decimal) s)"

definition starts_progress :: "(nat \<Rightarrow> bool) \<Rightarrow> ustring \<Rightarrow> bool" where
  "starts_progress decimal s =
     (\<exists>p d t post. s = p @ ustr ''% '' @ d @ ustr ''/'' @ t @ post
        \<and> all_digits decimal p \<and> all_digits decimal d \<and> all_digits decimal t)"

definition has_progress :: "(nat \<Rightarrow> bool) \<Rightarrow> ustring \<Rightarrow> bool" where
  "has_progress decimal line = (\<exists>pre rest. line = pre @ rest \<and> starts_progress decimal rest)"

text \<open>
  The match Python reports in a line: it starts at the leftmost position where a progress
  starts, and its last run of digits is not followed by a further digit.
\<close>

definition reported_match :: "(nat \<Rightarrow> bool) \<Rightarrow> ustring \<Rightarrow> ustring \<Rightarrow> ustring \<Rightarrow> ustring \<Rightarrow> bool" where
  "reported_match decimal line p d t =
     (\<exists>pre post. line = pre @ p @ ustr ''% '' @ d @ ustr ''/'' @ t @ post
        \<and> all_digits decimal p \<and> all_digits decimal d \<and> all_digits decimal t
        \<and> \<not> (post \<noteq> [] \<and> is_digit decimal (hd post))
        \<and> \<not> (\<exists>i. i < length pre \<and> starts_progress decimal (drop i line)))"

section \<open>fetch_progress\<close>

text \<open>
  What the function sees of \<^verbatim>\<open>build.log\<close>: no such file, a file that cannot be opened,
  read or decoded (every exception inside the \<^verbatim>\<open>try\<close> ends in the bare \<^verbatim>\<open>except\<close>),
  or its decoded text.
\<close>

datatype log_file = Absent | Unreadable | Readable ustring

text \<open>\<^verbatim>\<open>for line in reversed(lines)\<close>: the first line, from the end, that matches.\<close>

fun first_match :: "(nat \<Rightarrow> bool) \<Rightarrow> ustring list \<Rightarrow> (ustring \<times> ustring) option" where
  "first_match decimal [] = None"
| "first_match decimal (line # lines) =
     (case re_search decimal line of
        Some m \<Rightarrow> Some m
      | None \<Rightarrow> first_match decimal lines)"

definition format_progress :: "ustring \<times> ustring \<Rightarrow> ustring" where
  "format_progress m = fst m @ ustr ''% ('' @ snd m @ ustr '')''"

definition fetch_progress :: "(nat \<Rightarrow> bool) \<Rightarrow> log_file \<Rightarrow> ustring" where
  "fetch_progress decimal f =
     (case f of
        Absent \<Rightarrow> ustr ''Initializing...''
      | Unreadable \<Rightarrow> ustr ''Initializing...''
      | Readable content \<Rightarrow>
          (case first_match decimal (rev (readlines content)) of
             Some m \<Rightarrow> format_progress m
           | None \<Rightarrow> ustr ''Initializing the build system...''))"

section \<open>More of the host language's string and path functions\<close>

text \<open>\<^verbatim>\<open>sub in s\<close> on strings: \<open>sub\<close> occurs in \<open>s\<close> as a contiguous piece.\<close>

fun contains :: "string \<Rightarrow> string \<Rightarrow> bool" where
  "contains sub [] = (sub = [])"
| "contains sub (c # cs) = (take (length sub) (c # cs) = sub \<or> contains sub cs)"

definition to_lower :: "char \<Rightarrow> char" where
  "to_lower c =
     (case map_of (zip ''ABCDEFGHIJKLMNOPQRSTUVWXYZ'' ''abcdefghijklmnopqrstuvwxyz'') c of
        Some d \<Rightarrow> d
      | None \<Rightarrow> c)"

definition to_upper :: "char \<Rightarrow> char" where
  "to_upper c =
     (case map_of (zip ''abcdefghijklmnopqrstuvwxyz'' ''ABCDEFGHIJKLMNOPQRSTUVWXYZ'') c of
        Some d \<Rightarrow> d
      | None \<Rightarrow> c)"

definition is_lower :: "char \<Rightarrow> bool" where
  "is_lower c = (c \<in> set ''abcdefghijklmnopqrstuvwxyz'')"

definition is_upper :: "char \<Rightarrow> bool" where
  "is_upper c = (c \<in> set ''ABCDEFGHIJKLMNOPQRSTUVWXYZ'')"

definition lower :: "string \<Rightarrow> string" where
  "lower s = map to_lower s"

text \<open>
  \<^verbatim>\<open>str.title()\<close>: a letter that follows a letter is lowered, a letter that follows
  anything else (or starts the string) is raised. The letters are those of ASCII, which
  the names of the boot images consist of; a letter beyond ASCII is left as it is.
\<close>

fun title_from :: "bool \<Rightarrow> string \<Rightarrow> string" where
  "title_from previous_is_cased [] = []"
| "title_from previous_is_cased (c # cs) =
     (if is_lower c then
        (if previous_is_cased then c else to_upper c) # title_from True cs
      else if is_upper c then
        (if previous_is_cased then to_lower c else c) # title_from True cs
      else c # title_from False cs)"

definition title :: "string \<Rightarrow> string" where
  "title s = title_from False s"

text \<open>
  \<^verbatim>\<open>s.replace(old, new)\<close>: every occurrence of \<open>old\<close>, found from the left without
  overlap, becomes \<open>new\<close>; an empty \<open>old\<close> occurs before every character and at the end.
\<close>

function replace_nonempty :: "string \<Rightarrow> string \<Rightarrow> string \<Rightarrow> string" where
  "replace_nonempty old new s =
     (if old = [] \<or> s = [] then s
      else if take (length old) s = old
        then new @ replace_nonempty old new (drop (length old) s)
      else hd s # replace_nonempty old new (tl s))"
  by pat_completeness auto
termination
  by (relation "measure (\<lambda>(old, new, s). length s)") (auto simp: length_greater_0_conv)

declare replace_nonempty.simps [simp del]

definition replace :: "string \<Rightarrow> string \<Rightarrow> string \<Rightarrow> string" where
  "replace old new s =
     (if old = [] then new @ concat (map (\<lambda>c. c # new) s)
      else replace_nonempty old new s)"

text \<open>\<^verbatim>\<open>str.strip()\<close>: without the white space at both ends.\<close>

definition is_space :: "char \<Rightarrow> bool" where
  "is_space c =
     (c \<in> set [CHR 0x09, CHR 0x0A, CHR 0x0B, CHR 0x0C, CHR 0x0D,
                CHR 0x1C, CHR 0x1D, CHR 0x1E, CHR 0x1F, CHR 0x20])"

definition strip :: "string \<Rightarrow> string" where
  "strip s = rev (dropWhile is_space (rev (dropWhile is_space s)))"

text \<open>\<^verbatim>\<open>str(n)\<close> and \<^verbatim>\<open>f"{n}"\<close> for a natural number: its decimal digits.\<close>

definition digit_char :: "nat \<Rightarrow> char" where
  "digit_char d = ''0123456789'' ! (d mod 10)"

fun str :: "nat \<Rightarrow> string" where
  "str n = (if n < 10 then [digit_char n] else str (n div 10) @ [digit_char (n mod 10)])"

declare str.simps [simp del]

text \<open>
  \<^verbatim>\<open>os.path\<close> on a POSIX system. \<open>rfind_slash\<close> cuts a path after its last \<^verbatim>\<open>/\<close>:
  the first component is \<^verbatim>\<open>p[:i]\<close> and the second \<^verbatim>\<open>p[i:]\<close> for
  \<^verbatim>\<open>i = p.rfind('/') + 1\<close>.
\<close>

definition rfind_slash :: "string \<Rightarrow> string \<times> string" where
  "rfind_slash p =
     (let tail = rev (takeWhile (\<lambda>c. c \<noteq> CHR ''/'') (rev p))
      in (take (length p - length tail) p, tail))"

definition basename :: "string \<Rightarrow> string" where
  "basename p = snd (rfind_slash p)"

definition dirname :: "string \<Rightarrow> string" where
  "dirname p =
     (let head = fst (rfind_slash p) in
      if head \<noteq> [] \<and> \<not> list_all (\<lambda>c. c = CHR ''/'') head
        then rev (dropWhile (\<lambda>c. c = CHR ''/'') (rev head))
      else head)"

definition join :: "string \<Rightarrow> string \<Rightarrow> string" where
  "join a b =
     (if b \<noteq> [] \<and> hd b = CHR ''/'' then b
      else if a = [] \<or> last a = CHR ''/'' then a @ b
      else a @ ''/'' @ b)"

text \<open>
  \<^verbatim>\<open>os.path.splitext\<close>: the extension starts at the last dot of the last component,
  unless only dots stand before it in that component.
\<close>

definition splitext :: "string \<Rightarrow> string \<times> string" where
  "splitext p =
     (let name = basename p;
          ext = rev (takeWhile (\<lambda>c. c \<noteq> CHR ''.'') (rev name));
          stem = take (length name - length ext - 1) name
      in if CHR ''.'' \<in> set name \<and> \<not> list_all (\<lambda>c. c = CHR ''.'') stem
           then (take (length p - length ext - 1) p, CHR ''.'' # ext)
         else (p, []))"

text \<open>
  The UTF-8 encoding of a text of the log, for its place in a message text.
\<close>

definition utf8_char :: "uchar \<Rightarrow> string" where
  "utf8_char c =
     (case c of
        Ascii a \<Rightarrow> [a]
      | Wide n \<Rightarrow>
          if n < 0x800 then
            [char_of (0xC0 + n div 0x40), char_of (0x80 + n mod 0x40)]
          else if n < 0x10000 then
            [char_of (0xE0 + n div 0x1000), char_of (0x80 + n div 0x40 mod 0x40),
             char_of (0x80 + n mod 0x40)]
          else
            [char_of (0xF0 + n div 0x40000), char_of (0x80 + n div 0x1000 mod 0x40),
             char_of (0x80 + n div 0x40 mod 0x40), char_of (0x80 + n mod 0x40)])"

definition utf8 :: "ustring \<Rightarrow> string" where
  "utf8 s = concat (map utf8_char s)"

section \<open>Configuration, globals and effects\<close>

text \<open>
  The module's configuration constants and the values \<^verbatim>\<open>main\<close> detects once at start
  (\<^verbatim>\<open>ROM_NAME\<close>, \<^verbatim>\<open>ANDROID_VERSION\<close>) are the fields of \<open>config\<close>.
\<close>

record config =
  DEVICE :: string
  CONFIG_OFFICIAL_FLAG :: string
  CONFIG_CHATID :: string
  CONFIG_ERROR_CHATID :: string
  RCLONE_REMOTE :: string
  RCLONE_FOLDER :: string
  ROOT_DIRECTORY :: string
  ROM_NAME :: string
  ANDROID_VERSION :: string

definition BUILD_LOG :: "config \<Rightarrow> string" where
  "BUILD_LOG cfg = join (ROOT_DIRECTORY cfg) ''build.log''"

record button =
  button_text :: string
  button_url :: string

type_synonym keyboard = "button list list"

text \<open>
  The requests sent to the chat service: \<^verbatim>\<open>sendDocument\<close> (chat, file),
  \<^verbatim>\<open>editMessageText\<close> and \<^verbatim>\<open>editMessageCaption\<close> (chat, message identifier, text,
  keyboard). The message identifier is \<^verbatim>\<open>None\<close> when the first send failed.
\<close>

datatype api_call =
    SendDocument string string
  | EditMessageText string "int option" string "keyboard option"
  | EditMessageCaption string "int option" string "keyboard option"

text \<open>
  What a request comes back with: an exception of \<^verbatim>\<open>requests.post\<close>, of
  \<^verbatim>\<open>response.json()\<close> or of \<^verbatim>\<open>result.get\<close> (connection error, timeout, a body
  that is not JSON or not a JSON object), with its message; or a JSON object, of which
  the code reads the truth of \<^verbatim>\<open>ok\<close>, the \<^verbatim>\<open>description\<close> and
  \<^verbatim>\<open>result.message_id\<close>.
\<close>

datatype jvalue = JAbsent | JNull | JStr string

datatype http_outcome = Raises string | Reply bool jvalue "int option"

text \<open>
  Effects are recorded in a trace, in the order they happen: requests to the chat
  service, lines printed by the notifier, signals to the build child, operations on local
  files, the external \<^verbatim>\<open>rclone\<close> commands, the requests to the public host, and
  leaving the process. Lines printed only to inform the operator are left out.
\<close>

datatype event =
    Api api_call
  | Print string
  | Terminate nat
  | Remove string
  | Copy2 string string
  | RcloneLsf string
  | RcloneCopy string string
  | RcloneLink string
  | GoFileServers
  | GoFileUpload string string
  | Exit int

text \<open>
  The process-wide state: the local files (path to content), the trace, and the module's
  globals. \<open>build_process\<close> is \<open>None\<close> until the child is started, then its process
  identifier.
\<close>

record state =
  files :: "string \<Rightarrow> string option"
  trace :: "event list"
  previous_progress :: ustring
  build_message_id :: "int option"
  use_banner :: bool
  build_process :: "nat option"

fun api_calls :: "event list \<Rightarrow> api_call list" where
  "api_calls [] = []"
| "api_calls (Api c # es) = c # api_calls es"
| "api_calls (e # es) = api_calls es"

definition print :: "string \<Rightarrow> state \<Rightarrow> state" where
  "print line st = st\<lparr>trace := trace st @ [Print line]\<rparr>"

text \<open>
  The network is a sequence of outcomes: \<open>net n\<close> is what the request that follows \<open>n\<close>
  earlier requests comes back with.
\<close>

definition request :: "(nat \<Rightarrow> http_outcome) \<Rightarrow> api_call \<Rightarrow> state \<Rightarrow> http_outcome \<times> state" where
  "request net call st =
     (net (length (api_calls (trace st))), st\<lparr>trace := trace st @ [Api call]\<rparr>)"

section \<open>The notifier\<close>

definition default_chat :: "config \<Rightarrow> string option \<Rightarrow> string" where
  "default_chat cfg chat_id = (case chat_id of None \<Rightarrow> CONFIG_CHATID cfg | Some c \<Rightarrow> c)"

text \<open>
  The body of the \<^verbatim>\<open>try\<close> of both edit functions after the request:
  \<^verbatim>\<open>if not result.get('ok') and 'not modified' not in result.get('description', '')\<close>
  prints \<^verbatim>\<open>result.get('description')\<close>; an exception is printed by the handler. A
  \<^verbatim>\<open>description\<close> that is \<^verbatim>\<open>null\<close> makes \<^verbatim>\<open>in\<close> raise a \<^verbatim>\<open>TypeError\<close>.
\<close>

definition not_iterable :: string where
  "not_iterable = ''argument of type 'NoneType' is not iterable''"

definition edit_result :: "string \<Rightarrow> http_outcome \<Rightarrow> state \<Rightarrow> state" where
  "edit_result prefix out st =
     (case out of
        Raises e \<Rightarrow> print (prefix @ e) st
      | Reply ok description mid \<Rightarrow>
          if \<not> ok then
            (case description of
               JAbsent \<Rightarrow> print (prefix @ ''None'') st
             | JNull \<Rightarrow> print (prefix @ not_iterable) st
             | JStr d \<Rightarrow> if \<not> contains ''not modified'' d then print (prefix @ d) st else st)
          else st)"

definition edit_message ::
  "config \<Rightarrow> (nat \<Rightarrow> http_outcome) \<Rightarrow> int option \<Rightarrow> string \<Rightarrow> string option
     \<Rightarrow> keyboard option \<Rightarrow> state \<Rightarrow> state" where
  "edit_message cfg net message_id txt chat_id reply_markup st =
     (let (out, st1) =
            request net (EditMessageText (default_chat cfg chat_id) message_id txt reply_markup) st
      in edit_result ''Error editing message: '' out st1)"

definition edit_photo_caption ::
  "config \<Rightarrow> (nat \<Rightarrow> http_outcome) \<Rightarrow> int option \<Rightarrow> string \<Rightarrow> string option
     \<Rightarrow> keyboard option \<Rightarrow> state \<Rightarrow> state" where
  "edit_photo_caption cfg net message_id caption chat_id reply_markup st =
     (let (out, st1) =
            request net (EditMessageCaption (default_chat cfg chat_id) message_id caption reply_markup) st
      in edit_result ''Error editing caption: '' out st1)"

text \<open>The state after the request \<open>call\<close> and the printing of \<open>lines\<close>.\<close>

definition edited :: "state \<Rightarrow> api_call \<Rightarrow> string list \<Rightarrow> state" where
  "edited st call lines = st\<lparr>trace := trace st @ Api call # map Print lines\<rparr>"

text \<open>
  \<^verbatim>\<open>send_file\<close> opens the file inside its \<^verbatim>\<open>try\<close>: a missing file is printed as an
  error and no request is made. A reply without \<^verbatim>\<open>result.message_id\<close> raises a
  \<^verbatim>\<open>KeyError\<close> in the \<^verbatim>\<open>try\<close>. In both cases one line is printed; its text after
  the prefix stands for \<^verbatim>\<open>str(e)\<close>, which names the path or the missing key.
\<close>

definition send_file ::
  "config \<Rightarrow> (nat \<Rightarrow> http_outcome) \<Rightarrow> string \<Rightarrow> string option \<Rightarrow> state \<Rightarrow> int option \<times> state" where
  "send_file cfg net file_path chat_id st =
     (case files st file_path of
        None \<Rightarrow> (None, print (''Error sending file: No such file or directory'') st)
      | Some content \<Rightarrow>
          (let (out, st1) = request net (SendDocument (default_chat cfg chat_id) file_path) st in
           case out of
             Raises e \<Rightarrow> (None, print (''Error sending file: '' @ e) st1)
           | Reply ok description mid \<Rightarrow>
               if ok then
                 (case mid of
                    Some i \<Rightarrow> (Some i, st1)
                  | None \<Rightarrow> (None, print ''Error sending file: KeyError'' st1))
               else (None, st1)))"

section \<open>The progress monitor\<close>

text \<open>
  The pictographs of the messages, as the bytes of their UTF-8 encoding: hammer, hourglass,
  yellow circle, bullet, warning sign (with its variation selector), cross mark, inbox tray.
\<close>

definition hammer :: string where
  "hammer = [CHR 0xF0, CHR 0x9F, CHR 0x94, CHR 0xA8]"

definition hourglass :: string where
  "hourglass = [CHR 0xE2, CHR 0x8F, CHR 0xB3]"

definition yellow_circle :: string where
  "yellow_circle = [CHR 0xF0, CHR 0x9F, CHR 0x9F, CHR 0xA1]"

definition bullet :: string where
  "bullet = [CHR 0xE2, CHR 0x80, CHR 0xA2]"

definition warning_sign :: string where
  "warning_sign = [CHR 0xE2, CHR 0x9A, CHR 0xA0, CHR 0xEF, CHR 0xB8, CHR 0x8F]"

definition cross_mark :: string where
  "cross_mark = [CHR 0xE2, CHR 0x9D, CHR 0x8C]"

definition inbox_tray :: string where
  "inbox_tray = [CHR 0xF0, CHR 0x9F, CHR 0x93, CHR 0xA5]"

definition build_type :: "config \<Rightarrow> string" where
  "build_type cfg = (if CONFIG_OFFICIAL_FLAG cfg = ''1'' then ''Official'' else ''Unofficial'')"

definition progress_caption :: "config \<Rightarrow> ustring \<Rightarrow> string" where
  "progress_caption cfg current_progress =
     ''<b>'' @ hammer @ '' Building '' @ ROM_NAME cfg @ ''</b>\<newline>\<newline>''
     @ ''<b>Device:</b> '' @ DEVICE cfg @ '' | <b>Android:</b> '' @ ANDROID_VERSION cfg @ ''\<newline>''
     @ ''<b>Type:</b> '' @ build_type cfg @ ''\<newline>\<newline>''
     @ ''<b>'' @ hourglass @ '' Progress:</b> '' @ utf8 current_progress"

definition progress_text :: "config \<Rightarrow> ustring \<Rightarrow> string" where
  "progress_text cfg current_progress =
     yellow_circle @ '' | <i>Compiling ROM...</i>\<newline>\<newline>''
     @ ''<b>'' @ bullet @ '' ROM:</b> <code>'' @ ROM_NAME cfg @ ''</code>\<newline>''
     @ ''<b>'' @ bullet @ '' DEVICE:</b> <code>'' @ DEVICE cfg @ ''</code>\<newline>''
     @ ''<b>'' @ bullet @ '' ANDROID VERSION:</b> <code>'' @ ANDROID_VERSION cfg @ ''</code>\<newline>''
     @ ''<b>'' @ bullet @ '' TYPE:</b> <code>'' @ build_type cfg @ ''</code>\<newline>''
     @ ''<b>'' @ bullet @ '' PROGRESS:</b> <code>'' @ utf8 current_progress @ ''</code>''"

text \<open>One turn of the loop of \<^verbatim>\<open>monitor_progress\<close>, on the log as it is at that poll.\<close>

definition monitor_poll ::
  "config \<Rightarrow> (nat \<Rightarrow> http_outcome) \<Rightarrow> (nat \<Rightarrow> bool) \<Rightarrow> log_file \<Rightarrow> state \<Rightarrow> state" where
  "monitor_poll cfg net decimal log st =
     (let current_progress = fetch_progress decimal log in
      if current_progress \<noteq> previous_progress st then
        (let st1 =
           (if use_banner st
              then edit_photo_caption cfg net (build_message_id st)
                     (progress_caption cfg current_progress) None None st
            else edit_message cfg net (build_message_id st)
                     (progress_text cfg current_progress) None None st)
         in st1\<lparr>previous_progress := current_progress\<rparr>)
      else st)"

text \<open>
  The loop runs while the child lives, once every five seconds. \<open>logs\<close> is the log as
  found at each of these polls, in order: a build that ends is polled finitely often.
  Without a child (\<^verbatim>\<open>build_process\<close> is \<^verbatim>\<open>None\<close>) the body never runs.
\<close>

fun monitor_loop ::
  "config \<Rightarrow> (nat \<Rightarrow> http_outcome) \<Rightarrow> (nat \<Rightarrow> bool) \<Rightarrow> log_file list \<Rightarrow> state \<Rightarrow> state" where
  "monitor_loop cfg net decimal [] st = st"
| "monitor_loop cfg net decimal (log # logs) st =
     monitor_loop cfg net decimal logs (monitor_poll cfg net decimal log st)"

definition monitor_progress ::
  "config \<Rightarrow> (nat \<Rightarrow> http_outcome) \<Rightarrow> (nat \<Rightarrow> bool) \<Rightarrow> log_file list \<Rightarrow> state \<Rightarrow> state" where
  "monitor_progress cfg net decimal logs st =
     (if build_process st = None then st else monitor_loop cfg net decimal logs st)"

text \<open>The request a poll makes when the progress value has changed to \<open>p\<close>.\<close>

definition progress_call :: "config \<Rightarrow> state \<Rightarrow> ustring \<Rightarrow> api_call" where
  "progress_call cfg st p =
     (if use_banner st
        then EditMessageCaption (CONFIG_CHATID cfg) (build_message_id st) (progress_caption cfg p) None
      else EditMessageText (CONFIG_CHATID cfg) (build_message_id st) (progress_text cfg p) None)"

section \<open>Download buttons\<close>

text \<open>
  \<^verbatim>\<open>boot_images\<close> is a dictionary, read in insertion order by \<^verbatim>\<open>items()\<close>: a list of
  pairs of image name and address. The argument is \<^verbatim>\<open>None\<close> or such a dictionary; an
  empty dictionary counts as false in \<^verbatim>\<open>if boot_images\<close>.
\<close>

definition button_label :: "string \<Rightarrow> string" where
  "button_label img_name = title (replace ''_'' '' '' (replace ''.img'' [] img_name))"

fun boot_loop :: "(string \<times> string) list \<Rightarrow> keyboard \<times> button list \<Rightarrow> keyboard \<times> button list" where
  "boot_loop [] (buttons, boot_row) = (buttons, boot_row)"
| "boot_loop ((img_name, img_url) # items) (buttons, boot_row) =
     (let boot_row1 = boot_row @ [\<lparr>button_text = button_label img_name, button_url = img_url\<rparr>]
      in if length boot_row1 = 2 then boot_loop items (buttons @ [boot_row1], [])
         else boot_loop items (buttons, boot_row1))"

definition create_download_buttons :: "string \<Rightarrow> (string \<times> string) list option \<Rightarrow> keyboard" where
  "create_download_buttons rom_url boot_images =
     (let buttons = [[\<lparr>button_text = inbox_tray @ '' Download ROM'', button_url = rom_url\<rparr>]] in
      case boot_images of
        None \<Rightarrow> buttons
      | Some items \<Rightarrow>
          if items = [] then buttons
          else (let (buttons1, boot_row) = boot_loop items (buttons, [])
                in if boot_row \<noteq> [] then buttons1 @ [boot_row] else buttons1))"

text \<open>A list cut into pieces of two, the last piece of one when the length is odd.\<close>

fun pairs :: "'a list \<Rightarrow> 'a list list" where
  "pairs [] = []"
| "pairs [x] = [[x]]"
| "pairs (x # y # zs) = [x, y] # pairs zs"

definition boot_button :: "string \<times> string \<Rightarrow> button" where
  "boot_button item = \<lparr>button_text = button_label (fst item), button_url = snd item\<rparr>"

section \<open>Finding the ROM archive\<close>

text \<open>
  What \<^verbatim>\<open>find_rom_zip\<close> sees of the output directory: its entries in the order the
  directory lists them, each with its name and with what \<^verbatim>\<open>stat()\<close> gives for it: the
  two fields the code reads, or \<open>None\<close> when \<^verbatim>\<open>stat()\<close> raises, as it does for a
  symbolic link that points nowhere. The directory is taken not to change during the
  call. The modification time is compared only; it is an integer here.
\<close>

record stat_result =
  st_size :: nat
  st_mtime :: int

record dir_entry =
  entry_name :: string
  entry_stat :: "stat_result option"

datatype os_error = OSError

text \<open>
  A pattern \<^verbatim>\<open>pre*suf\<close> of \<^verbatim>\<open>Path.glob\<close>: the name starts with \<open>pre\<close>, ends with
  \<open>suf\<close>, and the two do not overlap.
\<close>

definition glob_star :: "string \<Rightarrow> string \<Rightarrow> string \<Rightarrow> bool" where
  "glob_star pre suf name =
     (length pre + length suf \<le> length name
      \<and> take (length pre) name = pre
      \<and> drop (length name - length suf) name = suf)"

definition rom_patterns :: "(string \<times> string) list" where
  "rom_patterns =
     [(''axion-'', ''.zip''), (''lineage-'', ''.zip''), (''voltage-'', ''.zip''),
      (''arrow-'', ''.zip''), (''evolution-'', ''.zip'')]"

definition glob :: "dir_entry list \<Rightarrow> string \<times> string \<Rightarrow> dir_entry list" where
  "glob entries pattern = filter (\<lambda>f. glob_star (fst pattern) (snd pattern) (entry_name f)) entries"

text \<open>
  \<^verbatim>\<open>[f for f in files if f.stat().st_size > 500 * 1024 * 1024]\<close>: \<^verbatim>\<open>stat()\<close> is called
  on every file of the list in turn, outside any \<^verbatim>\<open>try\<close>; the first failure leaves
  \<^verbatim>\<open>find_rom_zip\<close> as an exception. The files kept go on with their \<^verbatim>\<open>stat()\<close>.
\<close>

fun size_filter :: "dir_entry list \<Rightarrow> (dir_entry \<times> stat_result) list option" where
  "size_filter [] = Some []"
| "size_filter (f # fs) =
     (case entry_stat f of
        None \<Rightarrow> None
      | Some s \<Rightarrow>
          (case size_filter fs of
             None \<Rightarrow> None
           | Some kept \<Rightarrow> Some (if st_size s > 500 * 1024 * 1024 then (f, s) # kept else kept)))"

text \<open>\<^verbatim>\<open>max(files, key=...)\<close> on a non-empty list: the first of the entries with the largest key.\<close>

fun max_by :: "('a \<Rightarrow> int) \<Rightarrow> 'a \<Rightarrow> 'a list \<Rightarrow> 'a" where
  "max_by key best [] = best"
| "max_by key best (x # xs) = max_by key (if key best < key x then x else best) xs"

text \<open>\<^verbatim>\<open>str(Path(OUT_DIR) / name)\<close>, for \<open>out_dir\<close> the text of \<^verbatim>\<open>Path(OUT_DIR)\<close>.\<close>

definition path_child :: "string \<Rightarrow> string \<Rightarrow> string" where
  "path_child out_dir name = (if out_dir = ''.'' then name else join out_dir name)"

fun find_in_patterns ::
  "string \<Rightarrow> dir_entry list \<Rightarrow> (string \<times> string) list \<Rightarrow> os_error + string option" where
  "find_in_patterns out_dir entries [] = Inr None"
| "find_in_patterns out_dir entries (pattern # patterns) =
     (let files = glob entries pattern;
          files1 = filter (\<lambda>f. \<not> contains ''ota'' (lower (entry_name f))
                              \<and> \<not> contains ''img'' (lower (entry_name f))) files
      in case size_filter files1 of
           None \<Rightarrow> Inl OSError
         | Some files2 \<Rightarrow>
             (case files2 of
                f # fs \<Rightarrow>
                  Inr (Some (path_child out_dir
                               (entry_name (fst (max_by (\<lambda>g. st_mtime (snd g)) f fs)))))
              | [] \<Rightarrow> find_in_patterns out_dir entries patterns))"

definition find_rom_zip :: "string \<Rightarrow> dir_entry list \<Rightarrow> os_error + string option" where
  "find_rom_zip out_dir entries = find_in_patterns out_dir entries rom_patterns"

text \<open>
  A candidate of a pattern by its name; a pattern with a candidate that \<^verbatim>\<open>stat()\<close>
  fails on; a candidate that passes both filters; and the modification time of an entry
  that has one.
\<close>

definition name_ok :: "string \<times> string \<Rightarrow> dir_entry \<Rightarrow> bool" where
  "name_ok pattern f =
     (glob_star (fst pattern) (snd pattern) (entry_name f)
      \<and> \<not> contains ''ota'' (lower (entry_name f))
      \<and> \<not> contains ''img'' (lower (entry_name f)))"

definition stat_fails :: "dir_entry list \<Rightarrow> string \<times> string \<Rightarrow> bool" where
  "stat_fails entries pattern = (\<exists>f\<in>set entries. name_ok pattern f \<and> entry_stat f = None)"

definition qualifies :: "string \<times> string \<Rightarrow> dir_entry \<Rightarrow> bool" where
  "qualifies pattern f =
     (name_ok pattern f
      \<and> (case entry_stat f of Some s \<Rightarrow> st_size s > 500 * 1024 * 1024 | None \<Rightarrow> False))"

definition mtime :: "dir_entry \<Rightarrow> int" where
  "mtime f = (case entry_stat f of Some s \<Rightarrow> st_mtime s | None \<Rightarrow> 0)"

text \<open>A pattern the search passes without result: every candidate can be examined, none passes.\<close>

definition passed :: "dir_entry list \<Rightarrow> string \<times> string \<Rightarrow> bool" where
  "passed entries pattern =
     (\<not> stat_fails entries pattern \<and> (\<forall>f\<in>set entries. \<not> qualifies pattern f))"

section \<open>After the build: success or failure\<close>

definition path_exists :: "state \<Rightarrow> string \<Rightarrow> bool" where
  "path_exists st p = (files st p \<noteq> None)"

text \<open>\<^verbatim>\<open>os.path.getsize\<close> raises for a missing file: \<open>None\<close>.\<close>

definition getsize :: "state \<Rightarrow> string \<Rightarrow> nat option" where
  "getsize st p = map_option length (files st p)"

definition fail_msg :: "config \<Rightarrow> string" where
  "fail_msg cfg =
     ''<b>'' @ cross_mark @ '' '' @ ROM_NAME cfg @ '' Build Failed</b>\<newline>\<newline>''
     @ ''<b>Device:</b> '' @ DEVICE cfg @ '' | <b>Android:</b> '' @ ANDROID_VERSION cfg
     @ ''\<newline>\<newline><i>Check logs below</i>''"

datatype verdict = BuildFailed | BuildSucceeded

text \<open>
  The lines of \<^verbatim>\<open>main\<close> from \<^verbatim>\<open>build_process.wait()\<close> to the end of the failure
  branch. \<open>returncode\<close> is what \<^verbatim>\<open>wait()\<close> returns; \<^verbatim>\<open>main\<close> drops it. The test is
  \<^verbatim>\<open>os.path.exists(error_log) and os.path.getsize(error_log) > 0\<close>. On success the
  state is returned as it is, for the upload steps that follow.
\<close>

definition check_build ::
  "config \<Rightarrow> (nat \<Rightarrow> http_outcome) \<Rightarrow> int \<Rightarrow> state \<Rightarrow> verdict \<times> state" where
  "check_build cfg net returncode st =
     (let error_log = ''out/error.log'' in
      if path_exists st error_log
         \<and> (case getsize st error_log of Some n \<Rightarrow> n > 0 | None \<Rightarrow> False)
      then
        (let st1 = (if use_banner st
                      then edit_photo_caption cfg net (build_message_id st) (fail_msg cfg) None None st
                    else edit_message cfg net (build_message_id st) (fail_msg cfg) None None st);
             st2 = snd (send_file cfg net error_log (Some (CONFIG_ERROR_CHATID cfg)) st1);
             st3 = (if path_exists st2 (BUILD_LOG cfg)
                      then snd (send_file cfg net (BUILD_LOG cfg) (Some (CONFIG_ERROR_CHATID cfg)) st2)
                    else st2)
         in (BuildFailed, st3))
      else (BuildSucceeded, st))"

text \<open>The edit that announces the failure.\<close>

definition fail_call :: "config \<Rightarrow> state \<Rightarrow> api_call" where
  "fail_call cfg st =
     (if use_banner st
        then EditMessageCaption (CONFIG_CHATID cfg) (build_message_id st) (fail_msg cfg) None
      else EditMessageText (CONFIG_CHATID cfg) (build_message_id st) (fail_msg cfg) None)"

section \<open>Interruption and cleanup\<close>

definition interrupt_msg :: "config \<Rightarrow> string" where
  "interrupt_msg cfg =
     warning_sign @ '' | <i>Build interrupted by user</i>\<newline>\<newline>''
     @ ''<b>'' @ bullet @ '' ROM:</b> <code>'' @ ROM_NAME cfg @ ''</code>\<newline>''
     @ ''<b>'' @ bullet @ '' DEVICE:</b> <code>'' @ DEVICE cfg @ ''</code>\<newline>\<newline>''
     @ ''<i>Build was cancelled</i>''"

text \<open>\<^verbatim>\<open>if os.path.exists(path): os.remove(path)\<close>\<close>

definition remove_if_exists :: "string \<Rightarrow> state \<Rightarrow> state" where
  "remove_if_exists path st =
     (if path_exists st path
        then st\<lparr>files := (files st)(path := None), trace := trace st @ [Remove path]\<rparr>
      else st)"

text \<open>\<^verbatim>\<open>if build_message_id\<close>: an identifier that is neither \<^verbatim>\<open>None\<close> nor zero.\<close>

definition truthy_id :: "int option \<Rightarrow> bool" where
  "truthy_id message_id = (case message_id of None \<Rightarrow> False | Some n \<Rightarrow> n \<noteq> 0)"

text \<open>
  The handler of \<^verbatim>\<open>SIGINT\<close>. \<^verbatim>\<open>sys.exit(130)\<close> ends the trace; neither \<open>signum\<close> nor
  the frame is read.
\<close>

definition handle_interrupt :: "config \<Rightarrow> (nat \<Rightarrow> http_outcome) \<Rightarrow> int \<Rightarrow> state \<Rightarrow> state" where
  "handle_interrupt cfg net signum st =
     (let st1 = (case build_process st of
                   Some pid \<Rightarrow> st\<lparr>trace := trace st @ [Terminate pid]\<rparr>
                 | None \<Rightarrow> st);
          st2 = (if truthy_id (build_message_id st1) then
                   (if use_banner st1
                      then edit_photo_caption cfg net (build_message_id st1) (interrupt_msg cfg)
                             None None st1
                    else edit_message cfg net (build_message_id st1) (interrupt_msg cfg)
                             None None st1)
                 else st1);
          st3 = fold (\<lambda>f. remove_if_exists (join (ROOT_DIRECTORY cfg) f))
                  [''build_banner.png'', ''github_avatar.png'', ''avatar_circle.png''] st2
      in st3\<lparr>trace := trace st3 @ [Exit 130]\<rparr>)"

text \<open>
  The cleanup at the end of \<^verbatim>\<open>main\<close>, and the names of the image files that
  \<^verbatim>\<open>generate_build_banner\<close> and \<^verbatim>\<open>fetch_github_logo\<close> write under the root directory.
\<close>

definition cleanup_temporary_files :: "config \<Rightarrow> state \<Rightarrow> state" where
  "cleanup_temporary_files cfg st =
     fold (\<lambda>f. remove_if_exists (join (ROOT_DIRECTORY cfg) f))
       [''build_banner.png'', ''rom_logo.png'', ''logo_circle.png''] st"

definition generated_images :: "string list" where
  "generated_images =
     [''build_banner.png'', ''rom_logo.png'', ''logo_circle.png'', ''mask.png'', ''logo_shadow.png'']"

section \<open>Upload to remote storage\<close>

text \<open>
  What the upload functions meet outside the script.

  \<^item> The external \<^verbatim>\<open>rclone\<close> commands: \<open>lsf\<close> and \<open>link\<close> give the return code and
    the standard output of \<^verbatim>\<open>rclone lsf\<close> and \<^verbatim>\<open>rclone link\<close> on a remote path,
    \<open>copy\<close> the return code of \<^verbatim>\<open>rclone copy\<close> of a local file to a destination; each
    is \<open>None\<close> when starting the command or reading its output raises.
  \<^item> The file system: \<^verbatim>\<open>shutil.copy2\<close> of an existing file either completes or
    raises, leaving at the destination what \<open>CopyFailed\<close> carries (no file, a part of
    the content, or what was there); \<^verbatim>\<open>os.remove\<close> of an existing file raises where
    \<open>remove_fails\<close> holds.
  \<^item> The public host: \<open>servers\<close> is the name of the first server of the answer to the
    \<^verbatim>\<open>servers\<close> request, \<open>None\<close> when the request raises or the answer has no such
    name; \<open>uploadfile\<close> is the answer to the upload of a file to a server, \<open>None\<close>
    when the request raises or the answer is not a JSON object.
\<close>

datatype copy_outcome = Copied | CopyFailed "string option"

text \<open>
  A value of the host language as far as \<^verbatim>\<open>upload_file\<close> looks at it: \<^verbatim>\<open>None\<close>, a
  string, or any other value (a number, a list, an object), of which only the truth is
  read.
\<close>

datatype pyvalue = PyNone | PyStr string | PyOther bool

text \<open>
  The answer to the upload: a \<^verbatim>\<open>status\<close> other than \<^verbatim>\<open>ok\<close>, or \<^verbatim>\<open>ok\<close> with the
  value of \<^verbatim>\<open>result['data']['downloadPage']\<close>, \<open>None\<close> when that lookup raises.
\<close>

datatype gofile_reply = NotOk | StatusOk "pyvalue option"

record upload_env =
  lsf :: "string \<Rightarrow> (int \<times> string) option"
  copy :: "string \<Rightarrow> string \<Rightarrow> int option"
  link :: "string \<Rightarrow> (int \<times> string) option"
  copy2_outcome :: "string \<Rightarrow> string \<Rightarrow> copy_outcome"
  remove_fails :: "string \<Rightarrow> bool"
  servers :: "string option"
  uploadfile :: "string \<Rightarrow> string \<Rightarrow> gofile_reply option"

text \<open>The listing reports a remote path as present: return code zero and output that is not blank.\<close>

definition reported_present :: "upload_env \<Rightarrow> string \<Rightarrow> bool" where
  "reported_present env check_path =
     (case lsf env check_path of
        Some r \<Rightarrow> fst r = 0 \<and> strip (snd r) \<noteq> []
      | None \<Rightarrow> False)"

text \<open>
  The \<^verbatim>\<open>while True\<close> loop that looks for a free name. Its state is \<open>version\<close> and
  \<open>file_name\<close>; it returns them when the listing does not report the name, and \<open>None\<close>
  in their place when the listing command raises. A listing that reports every name it
  is asked about keeps the loop running for ever: the outer \<open>option\<close> of the result.
\<close>

partial_function (option) version_loop ::
  "upload_env \<Rightarrow> string \<Rightarrow> string \<times> string \<Rightarrow> nat \<Rightarrow> string \<Rightarrow> event list
     \<Rightarrow> ((nat \<times> string) option \<times> event list) option" where
  "version_loop env base_path name_parts version file_name tr =
     (let check_path = base_path @ ''/'' @ file_name;
          tr1 = tr @ [RcloneLsf check_path] in
      if lsf env check_path = None then Some (None, tr1)
      else if reported_present env check_path
        then version_loop env base_path name_parts (version + 1)
               (fst name_parts @ '' ('' @ str (version + 1) @ '')'' @ snd name_parts) tr1
      else Some (Some (version, file_name), tr1))"

text \<open>
  \<^verbatim>\<open>shutil.copy2(src, dst)\<close> and \<^verbatim>\<open>os.remove(path)\<close>: whether the call returned, and
  the state it leaves.
\<close>

definition copy2 :: "upload_env \<Rightarrow> string \<Rightarrow> string \<Rightarrow> state \<Rightarrow> bool \<times> state" where
  "copy2 env src dst st =
     (case copy2_outcome env src dst of
        Copied \<Rightarrow>
          (True, st\<lparr>files := (files st)(dst := files st src), trace := trace st @ [Copy2 src dst]\<rparr>)
      | CopyFailed left \<Rightarrow> (False, st\<lparr>files := (files st)(dst := left)\<rparr>))"

definition remove :: "upload_env \<Rightarrow> string \<Rightarrow> state \<Rightarrow> bool \<times> state" where
  "remove env path st =
     (if remove_fails env path then (False, st)
      else (True, st\<lparr>files := (files st)(path := None), trace := trace st @ [Remove path]\<rparr>))"

text \<open>
  \<^verbatim>\<open>upload_rclone\<close>. The result is \<open>Inl\<close> for the exception of \<^verbatim>\<open>os.path.getsize\<close>,
  which stands before the \<^verbatim>\<open>try\<close>, and \<open>Inr\<close> for the value returned: the link, the
  remote path, or \<^verbatim>\<open>None\<close> after a failed transfer or an exception inside the
  \<^verbatim>\<open>try\<close>.
\<close>

definition upload_rclone ::
  "config \<Rightarrow> upload_env \<Rightarrow> string \<Rightarrow> state \<Rightarrow> ((string + string option) \<times> state) option" where
  "upload_rclone cfg env file_path st =
     (let file_name = basename file_path in
      case getsize st file_path of
        None \<Rightarrow> Some (Inl ''FileNotFoundError'', st)
      | Some file_size \<Rightarrow>
         (let rclone_dest = (if RCLONE_FOLDER cfg \<noteq> []
                              then RCLONE_REMOTE cfg @ '':'' @ RCLONE_FOLDER cfg
                            else RCLONE_REMOTE cfg @ '':'');
              base_path = rclone_dest;
              original_name = file_name;
              name_parts = splitext file_name in
          case version_loop env base_path name_parts 0 file_name (trace st) of
            None \<Rightarrow> None
          | Some found \<Rightarrow>
             (case fst found of
                None \<Rightarrow> Some (Inr None, st\<lparr>trace := snd found\<rparr>)
              | Some chosen \<Rightarrow>
                 (let file_name1 = snd chosen;
                      st1 = st\<lparr>trace := snd found\<rparr>;
                      upload_file = (if file_name1 \<noteq> original_name
                                       then join (dirname file_path) file_name1 else file_path);
                      copied = (if file_name1 \<noteq> original_name
                                  then copy2 env file_path upload_file st1 else (True, st1));
                      st2 = snd copied in
                  if \<not> fst copied then Some (Inr None, st2)
                  else
                   (let rclone_file_path = base_path @ ''/'' @ file_name1;
                        st3 = st2\<lparr>trace := trace st2 @ [RcloneCopy upload_file rclone_dest]\<rparr> in
                    case copy env upload_file rclone_dest of
                      None \<Rightarrow> Some (Inr None, st3)
                    | Some returncode \<Rightarrow>
                       (let removed = (if upload_file \<noteq> file_path \<and> path_exists st3 upload_file
                                         then remove env upload_file st3 else (True, st3));
                            st4 = snd removed in
                        if \<not> fst removed then Some (Inr None, st4)
                        else if returncode \<noteq> 0 then Some (Inr None, st4)
                        else (let st5 = st4\<lparr>trace := trace st4 @ [RcloneLink rclone_file_path]\<rparr> in
                              case link env rclone_file_path of
                                None \<Rightarrow> Some (Inr None, st5)
                              | Some r \<Rightarrow>
                                  if fst r = 0 then Some (Inr (Some (strip (snd r))), st5)
                                  else Some (Inr (Some rclone_file_path), st5))))))))"

text \<open>
  The name the loop tries at version \<open>j\<close> when it holds \<open>file_name\<close> at \<open>version\<close>, and
  the names tried from the start: the original name, then stem, counter in parentheses,
  extension.
\<close>

definition candidate :: "string \<times> string \<Rightarrow> string \<Rightarrow> nat \<Rightarrow> nat \<Rightarrow> string" where
  "candidate name_parts file_name version j =
     (if j = version then file_name
      else fst name_parts @ '' ('' @ str j @ '')'' @ snd name_parts)"

definition versioned :: "string \<Rightarrow> nat \<Rightarrow> string" where
  "versioned original j = candidate (splitext original) original 0 j"

text \<open>The destination of the transfer, and the local file handed to it at version \<open>k\<close>.\<close>

definition remote_dest :: "config \<Rightarrow> string" where
  "remote_dest cfg =
     (if RCLONE_FOLDER cfg \<noteq> [] then RCLONE_REMOTE cfg @ '':'' @ RCLONE_FOLDER cfg
      else RCLONE_REMOTE cfg @ '':'')"

definition local_copy :: "string \<Rightarrow> nat \<Rightarrow> string" where
  "local_copy file_path k =
     (if k = 0 then file_path
      else join (dirname file_path) (versioned (basename file_path) k))"

text \<open>
  What \<^verbatim>\<open>upload_rclone\<close> returns after a transfer with return code \<open>rc\<close> to
  \<open>remote_path\<close>, and the events of a run that settles on version \<open>k\<close>.
\<close>

definition transfer_result :: "upload_env \<Rightarrow> string \<Rightarrow> int \<Rightarrow> string + string option" where
  "transfer_result env remote_path rc =
     (if rc \<noteq> 0 then Inr None
      else (case link env remote_path of
              None \<Rightarrow> Inr None
            | Some r \<Rightarrow> if fst r = 0 then Inr (Some (strip (snd r))) else Inr (Some remote_path)))"

definition transfer_events :: "config \<Rightarrow> string \<Rightarrow> nat \<Rightarrow> int \<Rightarrow> event list" where
  "transfer_events cfg file_path k rc =
     map (\<lambda>j. RcloneLsf (remote_dest cfg @ ''/'' @ versioned (basename file_path) j)) [0..<Suc k]
     @ (if k = 0 then [] else [Copy2 file_path (local_copy file_path k)])
     @ [RcloneCopy (local_copy file_path k) (remote_dest cfg)]
     @ (if k = 0 then [] else [Remove (local_copy file_path k)])
     @ (if rc = 0 then [RcloneLink (remote_dest cfg @ ''/'' @ versioned (basename file_path) k)]
        else [])"


section \<open>Upload to the public host, and the choice between the two\<close>

text \<open>
  \<^verbatim>\<open>upload_gofile\<close>. \<open>Inl\<close> is the exception of \<^verbatim>\<open>os.path.getsize\<close>, which stands
  before the \<^verbatim>\<open>try\<close>; \<open>Inr\<close> is the value returned: the download page of an upload
  answered with status \<^verbatim>\<open>ok\<close>, \<^verbatim>\<open>None\<close> otherwise.
\<close>

definition upload_gofile :: "upload_env \<Rightarrow> string \<Rightarrow> state \<Rightarrow> (string + pyvalue) \<times> state" where
  "upload_gofile env file_path st =
     (case getsize st file_path of
        None \<Rightarrow> (Inl ''FileNotFoundError'', st)
      | Some file_size \<Rightarrow>
         (let st1 = st\<lparr>trace := trace st @ [GoFileServers]\<rparr> in
          case servers env of
            None \<Rightarrow> (Inr PyNone, st1)
          | Some server \<Rightarrow>
             (let st2 = st1\<lparr>trace := trace st1 @ [GoFileUpload server file_path]\<rparr> in
              case uploadfile env server file_path of
                None \<Rightarrow> (Inr PyNone, st2)
              | Some result \<Rightarrow>
                 (case result of
                    NotOk \<Rightarrow> (Inr PyNone, st2)
                  | StatusOk page \<Rightarrow>
                     (case page of
                        None \<Rightarrow> (Inr PyNone, st2)
                      | Some url \<Rightarrow> (Inr url, st2))))))"

text \<open>The truth of a value in \<^verbatim>\<open>if url\<close>.\<close>

definition truthy :: "pyvalue \<Rightarrow> bool" where
  "truthy v = (case v of PyNone \<Rightarrow> False | PyStr s \<Rightarrow> s \<noteq> [] | PyOther b \<Rightarrow> b)"

text \<open>
  \<^verbatim>\<open>upload_file\<close>. The outer \<open>option\<close> is that of \<^const>\<open>upload_rclone\<close>; \<open>Inl\<close> is an
  exception that leaves the function.
\<close>

definition upload_file ::
  "config \<Rightarrow> upload_env \<Rightarrow> string \<Rightarrow> state \<Rightarrow> ((string + pyvalue) \<times> state) option" where
  "upload_file cfg env file_path st =
     (let fallback = (\<lambda>st1.
            (case upload_gofile env file_path st1 of
               (Inl e, st2) \<Rightarrow> (Inl e, st2)
             | (Inr url, st2) \<Rightarrow>
                 (Inr (if truthy url then url else PyStr ''Upload failed''), st2)))
      in if RCLONE_REMOTE cfg \<noteq> [] then
           (case upload_rclone cfg env file_path st of
              None \<Rightarrow> None
            | Some (Inl e, st1) \<Rightarrow> Some (Inl e, st1)
            | Some (Inr url, st1) \<Rightarrow>
                (case url of
                   Some u \<Rightarrow> if u \<noteq> [] then Some (Inr (PyStr u), st1) else Some (fallback st1)
                 | None \<Rightarrow> Some (fallback st1)))
         else Some (fallback st))"

section \<open>Sample values\<close>

definition sample_config :: config where
  "sample_config =
     \<lparr>DEVICE = ''cancunf'', CONFIG_OFFICIAL_FLAG = '''', CONFIG_CHATID = ''-100123'',
      CONFIG_ERROR_CHATID = ''-100456'', RCLONE_REMOTE = ''gdrive'', RCLONE_FOLDER = ''roms'',
      ROOT_DIRECTORY = ''/home/ci/axion'', ROM_NAME = ''AxionAOSP'', ANDROID_VERSION = ''16''\<rparr>"

definition sample_state :: state where
  "sample_state =
     \<lparr>files = Map.empty, trace = [], previous_progress = [], build_message_id = Some 42,
      use_banner = False, build_process = Some 4711\<rparr>"

definition axion_old :: dir_entry where
  "axion_old =
     \<lparr>entry_name = ''axion-1.zip'', entry_stat = Some \<lparr>st_size = 600000000, st_mtime = 1\<rparr>\<rparr>"

definition lineage_new :: dir_entry where
  "lineage_new =
     \<lparr>entry_name = ''lineage-2.zip'', entry_stat = Some \<lparr>st_size = 600000000, st_mtime = 2\<rparr>\<rparr>"

definition axion_dangling :: dir_entry where
  "axion_dangling = \<lparr>entry_name = ''axion-link.zip'', entry_stat = None\<rparr>"

text \<open>
  The decimal digits beyond ASCII of version 14.0 of the Unicode database: the blocks of
  ten (one of fifty) that start at these code points.
\<close>

definition unicode_14_decimal :: "nat \<Rightarrow> bool" where
  "unicode_14_decimal n =
     ((\<exists>b\<in>set [0x660, 0x6F0, 0x7C0, 0x966, 0x9E6, 0xA66, 0xAE6, 0xB66, 0xBE6, 0xC66, 0xCE6,
                  0xD66, 0xDE6, 0xE50, 0xED0, 0xF20, 0x1040, 0x1090, 0x17E0, 0x1810, 0x1946,
                  0x19D0, 0x1A80, 0x1A90, 0x1B50, 0x1BB0, 0x1C40, 0x1C50, 0xA620, 0xA8D0,
                  0xA900, 0xA9D0, 0xA9F0, 0xAA50, 0xABF0, 0xFF10, 0x104A0, 0x10D30, 0x11066,
                  0x110F0, 0x11136, 0x111D0, 0x112F0, 0x11450, 0x114D0, 0x11650, 0x116C0,
                  0x11730, 0x118E0, 0x11950, 0x11C50, 0x11D50, 0x11DA0, 0x16A60, 0x16AC0,
                  0x16B50, 0x1E140, 0x1E2F0, 0x1E950, 0x1FBF0]. b \<le> n \<and> n < b + 10)
      \<or> (0x1D7CE \<le> n \<and> n < 0x1D7CE + 50))"

definition failed_no_log :: state where
  "failed_no_log = sample_state\<lparr>files := [''out/error.log'' \<mapsto> ''ninja: build stopped'']\<rparr>"

definition failed_with_log :: state where
  "failed_with_log =
     sample_state\<lparr>files := [''out/error.log'' \<mapsto> ''ninja: build stopped'',
                              ''/home/ci/axion/build.log'' \<mapsto> ''[ 10% 100/1000]'']\<rparr>"

text \<open>
  The banner tool has failed after the logo was fetched and cut to a circle; the build
  runs with a text message.
\<close>

definition banner_left_over :: state where
  "banner_left_over =
     sample_state\<lparr>files := [''/home/ci/axion/build_banner.png'' \<mapsto> ''PNG'',
                              ''/home/ci/axion/rom_logo.png'' \<mapsto> ''PNG'',
                              ''/home/ci/axion/logo_circle.png'' \<mapsto> ''PNG'']\<rparr>"



text \<open>
  The build has left \<open>/out/axion-1.zip\<close>. On the remote, \<open>axion-1.zip\<close> is taken and
  every other name is free; every command succeeds; the public host is down.
\<close>

definition built :: state where
  "built = sample_state\<lparr>files := [''/out/axion-1.zip'' \<mapsto> ''PK'']\<rparr>"

definition one_taken :: upload_env where
  "one_taken =
     \<lparr>lsf = (\<lambda>p. if p = ''gdrive:roms/axion-1.zip'' then Some (0, ''axion-1.zip\<newline>'')
                  else Some (0, [])),
      copy = (\<lambda>src dst. Some 0),
      link = (\<lambda>p. Some (0, ''https://drive.example/f/1\<newline>'')),
      copy2_outcome = (\<lambda>src dst. Copied),
      remove_fails = (\<lambda>p. False),
      servers = None,
      uploadfile = (\<lambda>server p. None)\<rparr>"

text \<open>
  No remote storage is configured. A remote on which every name is free and the transfer
  fails, with the public host up; the same with the public host down.
\<close>

definition no_remote :: config where
  "no_remote = sample_config\<lparr>RCLONE_REMOTE := []\<rparr>"

definition transfer_fails :: upload_env where
  "transfer_fails =
     \<lparr>lsf = (\<lambda>p. Some (0, [])),
      copy = (\<lambda>src dst. Some 1),
      link = (\<lambda>p. None),
      copy2_outcome = (\<lambda>src dst. Copied),
      remove_fails = (\<lambda>p. False),
      servers = Some ''store1'',
      uploadfile = (\<lambda>server p. Some (StatusOk (Some (PyStr ''https://gofile.io/d/abc''))))\<rparr>"

definition all_down :: upload_env where
  "all_down = transfer_fails\<lparr>servers := None\<rparr>"

text \<open>Every name is free on the remote and the transfer succeeds, but no link can be had.\<close>

definition no_link :: upload_env where
  "no_link = one_taken\<lparr>lsf := (\<lambda>p. Some (0, [])), link := (\<lambda>p. Some (1, []))\<rparr>"

section \<open>Properties of the progress pattern\<close>

lemma not_digit_percent [simp]: "\<not> is_digit decimal (Ascii CHR ''%'')"
  and not_digit_slash [simp]: "\<not> is_digit decimal (Ascii CHR ''/'')"
  by (simp_all add: is_digit_def)

lemma takeWhile_digits_append:
  assumes "list_all (is_digit decimal) p" "\<not> is_digit decimal c"
  shows "takeWhile (is_digit decimal) (p @ c # r) = p"
    and "dropWhile (is_digit decimal) (p @ c # r) = c # r"
  using assms by (induction p) auto


lemma match_here_sound:
  assumes "match_here decimal s = Some (p, g)"
  shows "\<exists>d t rest. g = d @ ustr ''/'' @ t \<and> s = p @ ustr ''% '' @ d @ ustr ''/'' @ t @ rest
           \<and> all_digits decimal p \<and> all_digits decimal d \<and> all_digits decimal t
           \<and> \<not> (rest \<noteq> [] \<and> is_digit decimal (hd rest))"
proof -
  let ?dg = "is_digit decimal"
  let ?p = "takeWhile ?dg s" and ?r = "dropWhile ?dg s"
  from assms have p: "?p \<noteq> []" by (auto simp: match_here_def Let_def split: if_splits)
  from assms p obtain r2 where r: "?r = Ascii CHR ''%'' # Ascii CHR '' '' # r2"
    by (auto simp: match_here_def Let_def split: if_splits list.splits)
  let ?d = "takeWhile ?dg r2" and ?r3 = "dropWhile ?dg r2"
  from assms p r have d: "?d \<noteq> []"
    by (auto simp: match_here_def Let_def split: if_splits list.splits)
  from assms p r d obtain r4 where r3: "?r3 = Ascii CHR ''/'' # r4"
    by (auto simp: match_here_def Let_def split: if_splits list.splits)
  let ?t = "takeWhile ?dg r4" and ?rest = "dropWhile ?dg r4"
  from assms p r d r3 have t: "?t \<noteq> []" and res: "p = ?p" "g = ?d @ ustr ''/'' @ ?t"
    by (auto simp: match_here_def Let_def split: if_splits list.splits)
  have "s = ?p @ ?r" by simp
  also have "?r = ustr ''% '' @ r2" using r by simp
  also have "r2 = ?d @ ?r3" by simp
  also have "?r3 = ustr ''/'' @ r4" using r3 by simp
  also have "r4 = ?t @ ?rest" by simp
  finally have "s = ?p @ ustr ''% '' @ ?d @ ustr ''/'' @ ?t @ ?rest" .
  moreover have "all_digits decimal ?p" "all_digits decimal ?d" "all_digits decimal ?t"
    using p d t by (auto simp: all_digits_def list_all_iff dest: set_takeWhileD)
  moreover have "\<not> (?rest \<noteq> [] \<and> ?dg (hd ?rest))"
    using hd_dropWhile[of ?dg r4] by auto
  ultimately show ?thesis using res by blast
qed

lemma match_here_complete:
  assumes "all_digits decimal p" "all_digits decimal d" "all_digits decimal t"
  shows "match_here decimal (p @ ustr ''% '' @ d @ ustr ''/'' @ t @ rest)
           = Some (p, d @ ustr ''/'' @ takeWhile (is_digit decimal) (t @ rest))"
proof -
  let ?dg = "is_digit decimal"
  have 1: "takeWhile ?dg (p @ Ascii CHR ''%'' # Ascii CHR '' '' # d @ Ascii CHR ''/'' # t @ rest) = p"
       "dropWhile ?dg (p @ Ascii CHR ''%'' # Ascii CHR '' '' # d @ Ascii CHR ''/'' # t @ rest)
          = Ascii CHR ''%'' # Ascii CHR '' '' # d @ Ascii CHR ''/'' # t @ rest"
    using takeWhile_digits_append[OF _ not_digit_percent, of decimal p] assms(1)
    by (simp_all add: all_digits_def)
  have 2: "takeWhile ?dg (d @ Ascii CHR ''/'' # t @ rest) = d"
       "dropWhile ?dg (d @ Ascii CHR ''/'' # t @ rest) = Ascii CHR ''/'' # t @ rest"
    using takeWhile_digits_append[OF _ not_digit_slash, of decimal d] assms(2)
    by (simp_all add: all_digits_def)
  have 3: "takeWhile ?dg (t @ rest) \<noteq> []"
    using assms(3) by (cases t) (auto simp: all_digits_def)
  have 4: "p \<noteq> []" "d \<noteq> []" using assms by (auto simp: all_digits_def)
  show ?thesis
    unfolding match_here_def Let_def by (simp add: 1 2 3 4)
qed

lemma starts_progress_iff: "starts_progress decimal s \<longleftrightarrow> match_here decimal s \<noteq> None"
proof
  assume "starts_progress decimal s"
  then obtain p d t post where "s = p @ ustr ''% '' @ d @ ustr ''/'' @ t @ post"
    "all_digits decimal p" "all_digits decimal d" "all_digits decimal t"
    unfolding starts_progress_def by blast
  with match_here_complete[of decimal p d t post] show "match_here decimal s \<noteq> None" by simp
next
  assume "match_here decimal s \<noteq> None"
  then obtain p g where "match_here decimal s = Some (p, g)" by auto
  from match_here_sound[OF this] show "starts_progress decimal s"
    unfolding starts_progress_def by blast
qed

lemma re_search_leftmost:
  "re_search decimal l = Some m \<Longrightarrow>
     \<exists>pre rest. l = pre @ rest \<and> match_here decimal rest = Some m
        \<and> (\<forall>i<length pre. match_here decimal (drop i l) = None)"
proof (induction l)
  case Nil
  then show ?case by simp
next
  case (Cons c cs)
  show ?case
  proof (cases "match_here decimal (c # cs)")
    case (Some a)
    with Cons.prems have "c # cs = [] @ (c # cs) \<and> match_here decimal (c # cs) = Some m
        \<and> (\<forall>i<length ([]::ustring). match_here decimal (drop i (c # cs)) = None)" by simp
    then show ?thesis by blast
  next
    case None
    with Cons.prems have "re_search decimal cs = Some m" by simp
    from Cons.IH[OF this] obtain pre rest where
      h: "cs = pre @ rest" "match_here decimal rest = Some m"
         "\<forall>i<length pre. match_here decimal (drop i cs) = None" by blast
    have "\<forall>i<length (c # pre). match_here decimal (drop i (c # cs)) = None"
    proof (intro allI impI)
      fix i assume "i < length (c # pre)"
      then show "match_here decimal (drop i (c # cs)) = None"
        using None h(3) by (cases i) auto
    qed
    with h have "c # cs = (c # pre) @ rest \<and> match_here decimal rest = Some m
        \<and> (\<forall>i<length (c # pre). match_here decimal (drop i (c # cs)) = None)" by simp
    then show ?thesis by blast
  qed
qed


lemma re_search_here:
  "match_here decimal s = Some m \<Longrightarrow> re_search decimal s = Some m"
  by (cases s) (simp_all add: match_here_def)

lemma has_progress_iff [code]: "has_progress decimal s \<longleftrightarrow> re_search decimal s \<noteq> None"
proof
  assume "has_progress decimal s"
  then obtain pre rest where s: "s = pre @ rest" and "starts_progress decimal rest"
    unfolding has_progress_def by blast
  then have m: "match_here decimal rest \<noteq> None" by (simp add: starts_progress_iff)
  show "re_search decimal s \<noteq> None"
    unfolding s
  proof (induction pre)
    case Nil
    from m obtain a where "match_here decimal rest = Some a" by auto
    from re_search_here[OF this] show ?case by simp
  next
    case (Cons c pre)
    then show ?case by (cases "match_here decimal (c # pre @ rest)") simp_all
  qed
next
  assume "re_search decimal s \<noteq> None"
  then obtain m where "re_search decimal s = Some m" by auto
  from re_search_leftmost[OF this] obtain pre rest where
    "s = pre @ rest" "match_here decimal rest = Some m" by blast
  then show "has_progress decimal s"
    unfolding has_progress_def using starts_progress_iff[of decimal rest] by auto
qed

lemma re_search_reported:
  assumes "re_search decimal l = Some m"
  shows "\<exists>p d t. m = (p, d @ ustr ''/'' @ t) \<and> reported_match decimal l p d t"
proof -
  from re_search_leftmost[OF assms] obtain pre rest where
    h: "l = pre @ rest" "match_here decimal rest = Some m"
       "\<forall>i<length pre. match_here decimal (drop i l) = None" by blast
  obtain p g where m: "m = (p, g)" by (cases m)
  from match_here_sound[OF h(2)[unfolded m]] obtain d t post where
    s: "g = d @ ustr ''/'' @ t" "rest = p @ ustr ''% '' @ d @ ustr ''/'' @ t @ post"
       "all_digits decimal p" "all_digits decimal d" "all_digits decimal t"
       "\<not> (post \<noteq> [] \<and> is_digit decimal (hd post))" by blast
  have "\<not> (\<exists>i. i < length pre \<and> starts_progress decimal (drop i l))"
    using h(3) by (simp add: starts_progress_iff)
  with h(1) s(2-6) have "l = pre @ p @ ustr ''% '' @ d @ ustr ''/'' @ t @ post
        \<and> all_digits decimal p \<and> all_digits decimal d \<and> all_digits decimal t
        \<and> \<not> (post \<noteq> [] \<and> is_digit decimal (hd post))
        \<and> \<not> (\<exists>i. i < length pre \<and> starts_progress decimal (drop i l))"
    by simp
  then have "reported_match decimal l p d t"
    unfolding reported_match_def by (intro exI[of _ pre] exI[of _ post])
  with m s(1) show ?thesis by blast
qed

lemma reported_match_digits:
  "reported_match decimal l p d t \<Longrightarrow>
     all_digits decimal p \<and> all_digits decimal d \<and> all_digits decimal t"
  unfolding reported_match_def by (elim exE conjE) simp


lemma no_progress_search: "\<not> has_progress decimal l \<Longrightarrow> re_search decimal l = None"
  unfolding has_progress_iff by blast

lemma first_match_none:
  "(\<forall>l\<in>set ls. \<not> has_progress decimal l) \<Longrightarrow> first_match decimal ls = None"
  by (induction ls) (simp_all add: no_progress_search)



lemma first_match_form:
  "first_match decimal ls = Some m \<Longrightarrow>
     \<exists>p d t. m = (p, d @ ustr ''/'' @ t)
        \<and> all_digits decimal p \<and> all_digits decimal d \<and> all_digits decimal t"
proof (induction ls)
  case Nil then show ?case by simp
next
  case (Cons l ls)
  show ?case
  proof (cases "re_search decimal l")
    case None with Cons show ?thesis by simp
  next
    case (Some a)
    with Cons.prems have "re_search decimal l = Some m" by simp
    from re_search_reported[OF this] obtain p d t where
      "m = (p, d @ ustr ''/'' @ t)" "reported_match decimal l p d t" by (elim exE conjE)
    with reported_match_digits[of decimal l p d t] show ?thesis by blast
  qed
qed

lemma is_digit_ascii: "is_digit decimal (Ascii a) = (a \<in> set ''0123456789'')"
  by (simp add: is_digit_def)



lemma search_junk:
  "re_search decimal (ustr ''junk'' @ [LF]) = None"
  "re_search decimal (ustr ''junk'') = None"
  "re_search decimal (ustr ''ninja: no work to do'') = None"
  by (simp_all add: match_here_def Let_def LF_def is_digit_ascii)

subsection \<open>The log poller\<close>




text \<open>
  C10. \<^const>\<open>fetch_progress\<close> returns on every state of the log file: \<open>Initializing...\<close>
  when the file is absent or cannot be read, \<open>Initializing the build system...\<close> when it
  is there and no line matches, so that the two cases can be told apart; and every value
  it returns is one of the two sentinels or has the form \<open>p% (d/t)\<close> with \<open>p\<close>, \<open>d\<close>,
  \<open>t\<close> non-empty runs of decimal digits.
\<close>

theorem fetch_progress_total:
  "fetch_progress decimal Absent = ustr ''Initializing...''
   \<and> fetch_progress decimal Unreadable = ustr ''Initializing...''
   \<and> ((\<forall>l\<in>set (readlines c). \<not> has_progress decimal l)
        \<longrightarrow> fetch_progress decimal (Readable c) = ustr ''Initializing the build system...''
          \<and> fetch_progress decimal (Readable c) \<noteq> fetch_progress decimal Absent)
   \<and> (fetch_progress decimal f = ustr ''Initializing...''
        \<or> fetch_progress decimal f = ustr ''Initializing the build system...''
        \<or> (\<exists>p d t. all_digits decimal p \<and> all_digits decimal d \<and> all_digits decimal t
              \<and> fetch_progress decimal f = p @ ustr ''% ('' @ d @ ustr ''/'' @ t @ ustr '')''))"
proof (intro conjI impI)
  show "fetch_progress decimal Absent = ustr ''Initializing...''"
    and "fetch_progress decimal Unreadable = ustr ''Initializing...''"
    by (simp_all add: fetch_progress_def)
next
  assume "\<forall>l\<in>set (readlines c). \<not> has_progress decimal l"
  then have n: "first_match decimal (rev (readlines c)) = None"
    by (intro first_match_none) simp
  then show "fetch_progress decimal (Readable c) = ustr ''Initializing the build system...''"
    and "fetch_progress decimal (Readable c) \<noteq> fetch_progress decimal Absent"
    by (simp_all add: fetch_progress_def)
next
  show "fetch_progress decimal f = ustr ''Initializing...''
        \<or> fetch_progress decimal f = ustr ''Initializing the build system...''
        \<or> (\<exists>p d t. all_digits decimal p \<and> all_digits decimal d \<and> all_digits decimal t
              \<and> fetch_progress decimal f = p @ ustr ''% ('' @ d @ ustr ''/'' @ t @ ustr '')'')"
  proof (cases f)
    case (Readable content)
    show ?thesis
    proof (cases "first_match decimal (rev (readlines content))")
      case None
      with Readable show ?thesis by (simp add: fetch_progress_def)
    next
      case (Some m)
      from first_match_form[OF Some] obtain p d t where
        "m = (p, d @ ustr ''/'' @ t)" "all_digits decimal p" "all_digits decimal d"
        "all_digits decimal t" by blast
      moreover from Some Readable have "fetch_progress decimal f = format_progress m"
        by (simp add: fetch_progress_def)
      ultimately have "all_digits decimal p \<and> all_digits decimal d \<and> all_digits decimal t
              \<and> fetch_progress decimal f = p @ ustr ''% ('' @ d @ ustr ''/'' @ t @ ustr '')''"
        by (simp add: format_progress_def)
      then show ?thesis by blast
    qed
  qed (simp_all add: fetch_progress_def)
qed

text \<open>A log whose only line carries no progress.\<close>

theorem fetch_progress_total_witness:
  "fetch_progress unicode_14_decimal (Readable (ustr ''ninja: no work to do''))
     = ustr ''Initializing the build system...''
   \<and> fetch_progress unicode_14_decimal (Readable (ustr ''ninja: no work to do''))
     \<noteq> fetch_progress unicode_14_decimal Absent"
proof -
  have h: "\<forall>l\<in>set (readlines (ustr ''ninja: no work to do'')). \<not> has_progress unicode_14_decimal l"
    using search_junk(3)[of unicode_14_decimal]
    by (simp add: has_progress_iff readlines_def LF_def CR_def)
  from fetch_progress_total[of unicode_14_decimal "ustr ''ninja: no work to do''"] h
  show ?thesis by blast
qed

subsection \<open>The notifier\<close>

lemma contains_iff: "contains sub s \<longleftrightarrow> (\<exists>pre post. s = pre @ sub @ post)"
proof (induction s)
  case Nil
  then show ?case by auto
next
  case (Cons c cs)
  show ?case
  proof
    assume "contains sub (c # cs)"
    then consider "take (length sub) (c # cs) = sub" | "contains sub cs" by auto
    then show "\<exists>pre post. c # cs = pre @ sub @ post"
    proof cases
      case 1
      then have "c # cs = [] @ sub @ drop (length sub) (c # cs)"
        by (metis append_Nil append_take_drop_id)
      then show ?thesis by blast
    next
      case 2
      with Cons obtain pre post where "cs = pre @ sub @ post" by blast
      then have "c # cs = (c # pre) @ sub @ post" by simp
      then show ?thesis by blast
    qed
  next
    assume "\<exists>pre post. c # cs = pre @ sub @ post"
    then obtain pre post where e: "c # cs = pre @ sub @ post" by blast
    show "contains sub (c # cs)"
    proof (cases pre)
      case Nil
      with e have "take (length sub) (c # cs) = sub" by simp
      then show ?thesis by simp
    next
      case (Cons a pre')
      with e have "cs = pre' @ sub @ post" by simp
      with Cons.IH have "contains sub cs" by blast
      then show ?thesis by simp
    qed
  qed
qed

lemma edit_result_cases:
  "edit_result prefix out st =
     (case out of
        Raises e \<Rightarrow> st\<lparr>trace := trace st @ [Print (prefix @ e)]\<rparr>
      | Reply ok description mid \<Rightarrow>
          if ok then st
          else (case description of
                  JAbsent \<Rightarrow> st\<lparr>trace := trace st @ [Print (prefix @ ''None'')]\<rparr>
                | JNull \<Rightarrow> st\<lparr>trace := trace st @ [Print (prefix @ not_iterable)]\<rparr>
                | JStr d \<Rightarrow> if contains ''not modified'' d then st
                            else st\<lparr>trace := trace st @ [Print (prefix @ d)]\<rparr>))"
  by (simp add: edit_result_def print_def split: http_outcome.splits jvalue.splits)

lemma edit_message_eq:
  "edit_message cfg net message_id txt chat_id reply_markup st =
     edit_result ''Error editing message: '' (net (length (api_calls (trace st))))
       (st\<lparr>trace := trace st
            @ [Api (EditMessageText (default_chat cfg chat_id) message_id txt reply_markup)]\<rparr>)"
  by (simp add: edit_message_def request_def)

lemma edit_photo_caption_eq:
  "edit_photo_caption cfg net message_id txt chat_id reply_markup st =
     edit_result ''Error editing caption: '' (net (length (api_calls (trace st))))
       (st\<lparr>trace := trace st
            @ [Api (EditMessageCaption (default_chat cfg chat_id) message_id txt reply_markup)]\<rparr>)"
  by (simp add: edit_photo_caption_def request_def)

lemma edit_result_lines:
  "\<exists>lines. length lines \<le> 1
     \<and> edit_result prefix out (st\<lparr>trace := trace st @ [c]\<rparr>)
         = st\<lparr>trace := trace st @ c # map Print lines\<rparr>"
proof -
  let ?st = "st\<lparr>trace := trace st @ [c]\<rparr>"
  have "edit_result prefix out ?st = ?st
        \<or> (\<exists>l. edit_result prefix out ?st = ?st\<lparr>trace := trace ?st @ [Print l]\<rparr>)"
    unfolding edit_result_cases by (cases out) (auto split: jvalue.splits)
  then show ?thesis
  proof
    assume "edit_result prefix out ?st = ?st"
    then have "length ([]::string list) \<le> 1 \<and> edit_result prefix out ?st
                 = st\<lparr>trace := trace st @ c # map Print []\<rparr>" by simp
    then show ?thesis by blast
  next
    assume "\<exists>l. edit_result prefix out ?st = ?st\<lparr>trace := trace ?st @ [Print l]\<rparr>"
    then obtain l where "edit_result prefix out ?st = ?st\<lparr>trace := trace ?st @ [Print l]\<rparr>"
      by blast
    then have "length [l] \<le> 1 \<and> edit_result prefix out ?st
                 = st\<lparr>trace := trace st @ c # map Print [l]\<rparr>" by simp
    then show ?thesis by blast
  qed
qed


lemma edit_message_outcome:
  "edit_message cfg net message_id txt chat_id reply_markup st
     = edited st (EditMessageText (default_chat cfg chat_id) message_id txt reply_markup)
         (case net (length (api_calls (trace st))) of
            Raises e \<Rightarrow> [''Error editing message: '' @ e]
          | Reply ok description mid \<Rightarrow>
              if ok then []
              else (case description of
                      JAbsent \<Rightarrow> [''Error editing message: '' @ ''None'']
                    | JNull \<Rightarrow> [''Error editing message: '' @ not_iterable]
                    | JStr d \<Rightarrow> if contains ''not modified'' d then []
                                else [''Error editing message: '' @ d]))"
  unfolding edit_message_eq edit_result_cases edited_def
  by (simp split: http_outcome.splits jvalue.splits)

lemma edit_photo_caption_outcome:
  "edit_photo_caption cfg net message_id txt chat_id reply_markup st
     = edited st (EditMessageCaption (default_chat cfg chat_id) message_id txt reply_markup)
         (case net (length (api_calls (trace st))) of
            Raises e \<Rightarrow> [''Error editing caption: '' @ e]
          | Reply ok description mid \<Rightarrow>
              if ok then []
              else (case description of
                      JAbsent \<Rightarrow> [''Error editing caption: '' @ ''None'']
                    | JNull \<Rightarrow> [''Error editing caption: '' @ not_iterable]
                    | JStr d \<Rightarrow> if contains ''not modified'' d then []
                                else [''Error editing caption: '' @ d]))"
  unfolding edit_photo_caption_eq edit_result_cases edited_def
  by (simp split: http_outcome.splits jvalue.splits)

text \<open>
  C9. Both edit operations make their request and return the state with nothing but the
  trace changed, whatever the request comes back with: no branch of either function
  raises, since every statement that can fail stands inside \<^verbatim>\<open>try\<close> \<^verbatim>\<open>except Exception\<close>.
  A reply whose description contains \<open>not modified\<close>, and a reply that is \<^verbatim>\<open>ok\<close>, print
  nothing. Every other outcome prints exactly one line to the console: an exception of
  the request its message, a failure reply its description, a failure reply without
  description \<open>None\<close>, a failure reply whose description is \<^verbatim>\<open>null\<close> the message of
  the \<^verbatim>\<open>TypeError\<close>.
\<close>

theorem edits_never_fatal:
  fixes net :: "nat \<Rightarrow> http_outcome" and st :: state and cfg :: config
    and chat_id :: "string option" and message_id :: "int option" and body :: string
    and reply_markup :: "keyboard option"
  defines "out \<equiv> net (length (api_calls (trace st)))"
  defines "text_call \<equiv> EditMessageText (default_chat cfg chat_id) message_id body reply_markup"
  defines "caption_call \<equiv> EditMessageCaption (default_chat cfg chat_id) message_id body reply_markup"
  shows
  "((\<exists>ok d mid. out = Reply ok (JStr d) mid \<and> contains ''not modified'' d) \<longrightarrow>
      edit_message cfg net message_id body chat_id reply_markup st = edited st text_call []
    \<and> edit_photo_caption cfg net message_id body chat_id reply_markup st = edited st caption_call [])
   \<and> ((\<exists>description mid. out = Reply True description mid) \<longrightarrow>
      edit_message cfg net message_id body chat_id reply_markup st = edited st text_call []
    \<and> edit_photo_caption cfg net message_id body chat_id reply_markup st = edited st caption_call [])
   \<and> (out = Raises e \<longrightarrow>
      edit_message cfg net message_id body chat_id reply_markup st
        = edited st text_call [''Error editing message: '' @ e]
    \<and> edit_photo_caption cfg net message_id body chat_id reply_markup st
        = edited st caption_call [''Error editing caption: '' @ e])
   \<and> (out = Reply False (JStr d) mid \<and> \<not> contains ''not modified'' d \<longrightarrow>
      edit_message cfg net message_id body chat_id reply_markup st
        = edited st text_call [''Error editing message: '' @ d]
    \<and> edit_photo_caption cfg net message_id body chat_id reply_markup st
        = edited st caption_call [''Error editing caption: '' @ d])
   \<and> (out = Reply False JAbsent mid \<longrightarrow>
      edit_message cfg net message_id body chat_id reply_markup st
        = edited st text_call [''Error editing message: None'']
    \<and> edit_photo_caption cfg net message_id body chat_id reply_markup st
        = edited st caption_call [''Error editing caption: None''])
   \<and> (out = Reply False JNull mid \<longrightarrow>
      edit_message cfg net message_id body chat_id reply_markup st
        = edited st text_call [''Error editing message: '' @ not_iterable]
    \<and> edit_photo_caption cfg net message_id body chat_id reply_markup st
        = edited st caption_call [''Error editing caption: '' @ not_iterable])
   \<and> (\<exists>lines. length lines \<le> 1
         \<and> edit_message cfg net message_id body chat_id reply_markup st
             = edited st text_call lines)
   \<and> (\<exists>lines. length lines \<le> 1
         \<and> edit_photo_caption cfg net message_id body chat_id reply_markup st
             = edited st caption_call lines)"
proof -
  note m = edit_message_outcome[of cfg net message_id body chat_id reply_markup st,
      folded out_def text_call_def]
  note c = edit_photo_caption_outcome[of cfg net message_id body chat_id reply_markup st,
      folded out_def caption_call_def]
  have 1: "(\<exists>ok d mid. out = Reply ok (JStr d) mid \<and> contains ''not modified'' d) \<longrightarrow>
      edit_message cfg net message_id body chat_id reply_markup st = edited st text_call []
    \<and> edit_photo_caption cfg net message_id body chat_id reply_markup st = edited st caption_call []"
    unfolding m c by auto
  have 2: "(\<exists>description mid. out = Reply True description mid) \<longrightarrow>
      edit_message cfg net message_id body chat_id reply_markup st = edited st text_call []
    \<and> edit_photo_caption cfg net message_id body chat_id reply_markup st = edited st caption_call []"
    unfolding m c by auto
  have 3: "out = Raises e \<longrightarrow>
      edit_message cfg net message_id body chat_id reply_markup st
        = edited st text_call [''Error editing message: '' @ e]
    \<and> edit_photo_caption cfg net message_id body chat_id reply_markup st
        = edited st caption_call [''Error editing caption: '' @ e]"
    unfolding m c by simp
  have 4: "out = Reply False (JStr d) mid \<and> \<not> contains ''not modified'' d \<longrightarrow>
      edit_message cfg net message_id body chat_id reply_markup st
        = edited st text_call [''Error editing message: '' @ d]
    \<and> edit_photo_caption cfg net message_id body chat_id reply_markup st
        = edited st caption_call [''Error editing caption: '' @ d]"
    unfolding m c by simp
  have 5: "out = Reply False JAbsent mid \<longrightarrow>
      edit_message cfg net message_id body chat_id reply_markup st
        = edited st text_call [''Error editing message: None'']
    \<and> edit_photo_caption cfg net message_id body chat_id reply_markup st
        = edited st caption_call [''Error editing caption: None'']"
    unfolding m c by simp
  have 6: "out = Reply False JNull mid \<longrightarrow>
      edit_message cfg net message_id body chat_id reply_markup st
        = edited st text_call [''Error editing message: '' @ not_iterable]
    \<and> edit_photo_caption cfg net message_id body chat_id reply_markup st
        = edited st caption_call [''Error editing caption: '' @ not_iterable]"
    unfolding m c by simp
  have 7: "\<exists>lines. length lines \<le> 1
         \<and> edit_message cfg net message_id body chat_id reply_markup st
             = edited st text_call lines"
  proof -
    obtain lines where l: "edit_message cfg net message_id body chat_id reply_markup st
             = edited st text_call lines"
      and "lines = (case out of
            Raises e \<Rightarrow> [''Error editing message: '' @ e]
          | Reply ok description mid \<Rightarrow>
              if ok then []
              else (case description of
                      JAbsent \<Rightarrow> [''Error editing message: '' @ ''None'']
                    | JNull \<Rightarrow> [''Error editing message: '' @ not_iterable]
                    | JStr d \<Rightarrow> if contains ''not modified'' d then []
                                else [''Error editing message: '' @ d]))"
      using m by simp
    then have "length lines \<le> 1" by (simp split: http_outcome.splits jvalue.splits)
    with l show ?thesis by blast
  qed
  have 8: "\<exists>lines. length lines \<le> 1
         \<and> edit_photo_caption cfg net message_id body chat_id reply_markup st
             = edited st caption_call lines"
  proof -
    obtain lines where l: "edit_photo_caption cfg net message_id body chat_id reply_markup st
             = edited st caption_call lines"
      and "lines = (case out of
            Raises e \<Rightarrow> [''Error editing caption: '' @ e]
          | Reply ok description mid \<Rightarrow>
              if ok then []
              else (case description of
                      JAbsent \<Rightarrow> [''Error editing caption: '' @ ''None'']
                    | JNull \<Rightarrow> [''Error editing caption: '' @ not_iterable]
                    | JStr d \<Rightarrow> if contains ''not modified'' d then []
                                else [''Error editing caption: '' @ d]))"
      using c by simp
    then have "length lines \<le> 1" by (simp split: http_outcome.splits jvalue.splits)
    with l show ?thesis by blast
  qed
  from 1 2 3 4 5 6 7 8 show ?thesis by blast
qed

text \<open>
  A reply \<open>message is not modified\<close>, a timeout, a reply \<open>chat not found\<close>, failure
  replies without description and with a \<^verbatim>\<open>null\<close> description, and a reply that is
  \<^verbatim>\<open>ok\<close>.
\<close>

theorem edits_never_fatal_witness:
  "trace (edit_message sample_config
            (\<lambda>n. Reply False (JStr ''Bad Request: message is not modified'') None)
            (Some 42) ''55% (550/1000)'' None None sample_state)
     = [Api (EditMessageText ''-100123'' (Some 42) ''55% (550/1000)'' None)]
   \<and> trace (edit_photo_caption sample_config (\<lambda>n. Raises ''Read timed out'')
            (Some 42) ''55% (550/1000)'' None None sample_state)
     = [Api (EditMessageCaption ''-100123'' (Some 42) ''55% (550/1000)'' None),
        Print ''Error editing caption: Read timed out'']
   \<and> trace (edit_message sample_config
            (\<lambda>n. Reply False (JStr ''Bad Request: chat not found'') None)
            (Some 42) ''55% (550/1000)'' None None sample_state)
     = [Api (EditMessageText ''-100123'' (Some 42) ''55% (550/1000)'' None),
        Print ''Error editing message: Bad Request: chat not found'']
   \<and> trace (edit_message sample_config (\<lambda>n. Reply False JAbsent None)
            (Some 42) ''55% (550/1000)'' None None sample_state)
     = [Api (EditMessageText ''-100123'' (Some 42) ''55% (550/1000)'' None),
        Print ''Error editing message: None'']
   \<and> trace (edit_photo_caption sample_config (\<lambda>n. Reply False JNull None)
            (Some 42) ''55% (550/1000)'' None None sample_state)
     = [Api (EditMessageCaption ''-100123'' (Some 42) ''55% (550/1000)'' None),
        Print (''Error editing caption: '' @ not_iterable)]
   \<and> trace (edit_message sample_config (\<lambda>n. Reply True JAbsent (Some 42))
            (Some 42) ''55% (550/1000)'' None None sample_state)
     = [Api (EditMessageText ''-100123'' (Some 42) ''55% (550/1000)'' None)]"
proof -
  let ?n1 = "\<lambda>n::nat. Reply False (JStr ''Bad Request: message is not modified'') None"
  let ?n2 = "\<lambda>n::nat. Raises ''Read timed out''"
  let ?n3 = "\<lambda>n::nat. Reply False (JStr ''Bad Request: chat not found'') None"
  let ?n4 = "\<lambda>n::nat. Reply False JAbsent None"
  let ?n5 = "\<lambda>n::nat. Reply False JNull None"
  let ?n6 = "\<lambda>n::nat. Reply True JAbsent (Some 42)"
  let ?tc = "EditMessageText (default_chat sample_config None) (Some 42) ''55% (550/1000)'' None"
  let ?cc = "EditMessageCaption (default_chat sample_config None) (Some 42) ''55% (550/1000)'' None"
  have c: "default_chat sample_config None = ''-100123''"
    by (simp add: default_chat_def sample_config_def)
  have t: "trace sample_state = []" by (simp add: sample_state_def)
  have h1: "\<exists>ok d mid. ?n1 (length (api_calls (trace sample_state))) = Reply ok (JStr d) mid
              \<and> contains ''not modified'' d"
    by (intro exI[of _ False] exI[of _ "''Bad Request: message is not modified''"] exI[of _ None])
       simp
  have h3: "?n3 (length (api_calls (trace sample_state)))
               = Reply False (JStr ''Bad Request: chat not found'') None
            \<and> \<not> contains ''not modified'' ''Bad Request: chat not found''"
    by simp
  have h6: "\<exists>description mid. ?n6 (length (api_calls (trace sample_state)))
               = Reply True description mid"
    by blast
  have 1: "edit_message sample_config ?n1 (Some 42) ''55% (550/1000)'' None None sample_state
        = edited sample_state ?tc []"
    by (rule edits_never_fatal[where net = ?n1 and st = sample_state and cfg = sample_config
        and message_id = "Some 42" and body = "''55% (550/1000)''" and chat_id = None
        and reply_markup = None,
        THEN conjunct1, THEN mp, OF h1, THEN conjunct1])
  have 2: "edit_photo_caption sample_config ?n2 (Some 42) ''55% (550/1000)'' None None sample_state
        = edited sample_state ?cc [''Error editing caption: '' @ ''Read timed out'']"
    by (rule edits_never_fatal[where net = ?n2 and st = sample_state and cfg = sample_config
        and message_id = "Some 42" and body = "''55% (550/1000)''" and chat_id = None
        and reply_markup = None and e = "''Read timed out''",
        THEN conjunct2, THEN conjunct2, THEN conjunct1, THEN mp, OF refl, THEN conjunct2])
  have 3: "edit_message sample_config ?n3 (Some 42) ''55% (550/1000)'' None None sample_state
        = edited sample_state ?tc [''Error editing message: '' @ ''Bad Request: chat not found'']"
    by (rule edits_never_fatal[where net = ?n3 and st = sample_state and cfg = sample_config
        and message_id = "Some 42" and body = "''55% (550/1000)''" and chat_id = None
        and reply_markup = None and d = "''Bad Request: chat not found''" and mid = None,
        THEN conjunct2, THEN conjunct2, THEN conjunct2, THEN conjunct1, THEN mp, OF h3, THEN conjunct1])
  have 4: "edit_message sample_config ?n4 (Some 42) ''55% (550/1000)'' None None sample_state
        = edited sample_state ?tc [''Error editing message: None'']"
    by (rule edits_never_fatal[where net = ?n4 and st = sample_state and cfg = sample_config
        and message_id = "Some 42" and body = "''55% (550/1000)''" and chat_id = None
        and reply_markup = None and mid = None,
        THEN conjunct2, THEN conjunct2, THEN conjunct2, THEN conjunct2, THEN conjunct1, THEN mp, OF refl, THEN conjunct1])
  have 5: "edit_photo_caption sample_config ?n5 (Some 42) ''55% (550/1000)'' None None sample_state
        = edited sample_state ?cc [''Error editing caption: '' @ not_iterable]"
    by (rule edits_never_fatal[where net = ?n5 and st = sample_state and cfg = sample_config
        and message_id = "Some 42" and body = "''55% (550/1000)''" and chat_id = None
        and reply_markup = None and mid = None,
        THEN conjunct2, THEN conjunct2, THEN conjunct2, THEN conjunct2, THEN conjunct2, THEN conjunct1, THEN mp, OF refl, THEN conjunct2])
  have 6: "edit_message sample_config ?n6 (Some 42) ''55% (550/1000)'' None None sample_state
        = edited sample_state ?tc []"
    by (rule edits_never_fatal[where net = ?n6 and st = sample_state and cfg = sample_config
        and message_id = "Some 42" and body = "''55% (550/1000)''" and chat_id = None
        and reply_markup = None,
        THEN conjunct2, THEN conjunct1, THEN mp, OF h6, THEN conjunct1])
  show ?thesis unfolding 1 2 3 4 5 6 by (simp add: c t edited_def)
qed

subsection \<open>The progress monitor\<close>

lemma api_calls_append: "api_calls (a @ b) = api_calls a @ api_calls b"
  by (induction a rule: api_calls.induct) simp_all

lemma api_calls_prints: "api_calls (map Print ls) = []"
  by (induction ls) simp_all

lemma edit_message_trace:
  "\<exists>lines. length lines \<le> 1 \<and>
     edit_message cfg net message_id txt chat_id reply_markup st
       = st\<lparr>trace := trace st
            @ Api (EditMessageText (default_chat cfg chat_id) message_id txt reply_markup)
              # map Print lines\<rparr>"
  unfolding edit_message_eq by (rule edit_result_lines)

lemma edit_photo_caption_trace:
  "\<exists>lines. length lines \<le> 1 \<and>
     edit_photo_caption cfg net message_id txt chat_id reply_markup st
       = st\<lparr>trace := trace st
            @ Api (EditMessageCaption (default_chat cfg chat_id) message_id txt reply_markup)
              # map Print lines\<rparr>"
  unfolding edit_photo_caption_eq by (rule edit_result_lines)

lemma monitor_poll_changed:
  assumes "fetch_progress decimal log \<noteq> previous_progress st"
  shows "\<exists>lines. length lines \<le> 1 \<and>
     monitor_poll cfg net decimal log st
       = st\<lparr>trace := trace st @ Api (progress_call cfg st (fetch_progress decimal log)) # map Print lines,
            previous_progress := fetch_progress decimal log\<rparr>"
proof (cases "use_banner st")
  case True
  from edit_photo_caption_trace[of cfg net "build_message_id st"
      "progress_caption cfg (fetch_progress decimal log)" None None st]
  obtain lines where "length lines \<le> 1"
    "edit_photo_caption cfg net (build_message_id st)
       (progress_caption cfg (fetch_progress decimal log)) None None st
     = st\<lparr>trace := trace st
          @ Api (EditMessageCaption (default_chat cfg None) (build_message_id st)
                  (progress_caption cfg (fetch_progress decimal log)) None) # map Print lines\<rparr>"
    by blast
  with True assms have "length lines \<le> 1 \<and>
     monitor_poll cfg net decimal log st
       = st\<lparr>trace := trace st @ Api (progress_call cfg st (fetch_progress decimal log)) # map Print lines,
            previous_progress := fetch_progress decimal log\<rparr>"
    by (simp add: monitor_poll_def Let_def progress_call_def default_chat_def)
  then show ?thesis by blast
next
  case False
  from edit_message_trace[of cfg net "build_message_id st"
      "progress_text cfg (fetch_progress decimal log)" None None st]
  obtain lines where "length lines \<le> 1"
    "edit_message cfg net (build_message_id st)
       (progress_text cfg (fetch_progress decimal log)) None None st
     = st\<lparr>trace := trace st
          @ Api (EditMessageText (default_chat cfg None) (build_message_id st)
                  (progress_text cfg (fetch_progress decimal log)) None) # map Print lines\<rparr>"
    by blast
  with False assms have "length lines \<le> 1 \<and>
     monitor_poll cfg net decimal log st
       = st\<lparr>trace := trace st @ Api (progress_call cfg st (fetch_progress decimal log)) # map Print lines,
            previous_progress := fetch_progress decimal log\<rparr>"
    by (simp add: monitor_poll_def Let_def progress_call_def default_chat_def)
  then show ?thesis by blast
qed

lemma monitor_poll_same:
  "fetch_progress decimal log = previous_progress st \<Longrightarrow> monitor_poll cfg net decimal log st = st"
  by (simp add: monitor_poll_def)

lemma monitor_poll_previous:
  "previous_progress (monitor_poll cfg net decimal log st) = fetch_progress decimal log"
proof (cases "fetch_progress decimal log = previous_progress st")
  case True
  then show ?thesis by (simp add: monitor_poll_same)
next
  case False
  from monitor_poll_changed[OF False, where cfg = cfg and net = net] show ?thesis by auto
qed

lemma monitor_poll_calls:
  "api_calls (trace (monitor_poll cfg net decimal log st))
     = api_calls (trace st)
       @ (if fetch_progress decimal log = previous_progress st then []
          else [progress_call cfg st (fetch_progress decimal log)])"
proof (cases "fetch_progress decimal log = previous_progress st")
  case True
  then show ?thesis by (simp add: monitor_poll_same)
next
  case False
  from monitor_poll_changed[OF False, where cfg = cfg and net = net] obtain lines where
    "monitor_poll cfg net decimal log st
       = st\<lparr>trace := trace st @ Api (progress_call cfg st (fetch_progress decimal log)) # map Print lines,
            previous_progress := fetch_progress decimal log\<rparr>" by blast
  with False show ?thesis by (simp add: api_calls_append api_calls_prints)
qed

text \<open>
  C6. A poll whose extracted value equals the stored one changes nothing: no request, no
  output. Of two consecutive polls that extract equal strings the second does nothing, so
  the two together make at most one request. The comparison is between strings: a poll
  whose value differs from the stored string in any way makes exactly one request.
\<close>

theorem monitor_no_redundant_edit:
  "(fetch_progress decimal log = previous_progress st \<longrightarrow> monitor_poll cfg net decimal log st = st)
   \<and> (fetch_progress decimal log1 = fetch_progress decimal log2 \<longrightarrow>
        monitor_progress cfg net decimal [log1, log2] st = monitor_progress cfg net decimal [log1] st
        \<and> (\<exists>calls. length calls \<le> 1
             \<and> api_calls (trace (monitor_progress cfg net decimal [log1, log2] st))
                 = api_calls (trace st) @ calls))
   \<and> (fetch_progress decimal log \<noteq> previous_progress st \<longrightarrow>
        api_calls (trace (monitor_poll cfg net decimal log st))
          = api_calls (trace st) @ [progress_call cfg st (fetch_progress decimal log)])"
proof (intro conjI impI)
  assume "fetch_progress decimal log = previous_progress st"
  then show "monitor_poll cfg net decimal log st = st" by (rule monitor_poll_same)
next
  assume e: "fetch_progress decimal log1 = fetch_progress decimal log2"
  let ?st1 = "monitor_poll cfg net decimal log1 st"
  have "fetch_progress decimal log2 = previous_progress ?st1"
    using e by (simp add: monitor_poll_previous)
  then have s: "monitor_poll cfg net decimal log2 ?st1 = ?st1" by (rule monitor_poll_same)
  then show "monitor_progress cfg net decimal [log1, log2] st = monitor_progress cfg net decimal [log1] st"
    by (simp add: monitor_progress_def)
  show "\<exists>calls. length calls \<le> 1
             \<and> api_calls (trace (monitor_progress cfg net decimal [log1, log2] st))
                 = api_calls (trace st) @ calls"
  proof (cases "build_process st = None")
    case True
    then have "length ([]::api_call list) \<le> 1
        \<and> api_calls (trace (monitor_progress cfg net decimal [log1, log2] st)) = api_calls (trace st) @ []"
      by (simp add: monitor_progress_def)
    then show ?thesis by blast
  next
    case False
    then obtain pid where pid: "build_process st = Some pid" by auto
    let ?calls = "if fetch_progress decimal log1 = previous_progress st then []
          else [progress_call cfg st (fetch_progress decimal log1)]"
    have "length ?calls \<le> 1
        \<and> api_calls (trace (monitor_progress cfg net decimal [log1, log2] st))
            = api_calls (trace st) @ ?calls"
      using s monitor_poll_calls[where cfg = cfg and net = net and decimal = decimal and log = log1 and st = st] by (simp add: monitor_progress_def pid)
    then show ?thesis by blast
  qed
next
  assume "fetch_progress decimal log \<noteq> previous_progress st"
  then show "api_calls (trace (monitor_poll cfg net decimal log st))
          = api_calls (trace st) @ [progress_call cfg st (fetch_progress decimal log)]"
    by (simp add: monitor_poll_calls)
qed

text \<open>
  An absent log polled again; the same progress read from two different lines; and
  \<open>05%\<close> after \<open>5%\<close>, equal as numbers and different as strings.
\<close>

theorem monitor_no_redundant_edit_witness:
  "monitor_poll sample_config (\<lambda>n. Reply True JAbsent None) unicode_14_decimal Absent
       (sample_state\<lparr>previous_progress := ustr ''Initializing...''\<rparr>)
     = sample_state\<lparr>previous_progress := ustr ''Initializing...''\<rparr>
   \<and> monitor_progress sample_config (\<lambda>n. Reply True JAbsent None) unicode_14_decimal
        [Readable (ustr ''10% 100/1000''), Readable (ustr ''[ 10% 100/1000 2m remaining]'')] sample_state
     = monitor_progress sample_config (\<lambda>n. Reply True JAbsent None) unicode_14_decimal
        [Readable (ustr ''10% 100/1000'')] sample_state
   \<and> api_calls (trace (monitor_poll sample_config (\<lambda>n. Reply True JAbsent None) unicode_14_decimal
        (Readable (ustr ''05% 1/2'')) (sample_state\<lparr>previous_progress := ustr ''5% (1/2)''\<rparr>)))
     = [EditMessageText ''-100123'' (Some 42) (progress_text sample_config (ustr ''05% (1/2)'')) None]"
proof -
  let ?net = "\<lambda>n::nat. Reply True JAbsent None"
  let ?st1 = "sample_state\<lparr>previous_progress := ustr ''Initializing...''\<rparr>"
  let ?st3 = "sample_state\<lparr>previous_progress := ustr ''5% (1/2)''\<rparr>"
  have h1: "fetch_progress unicode_14_decimal Absent = previous_progress ?st1"
    by (simp add: fetch_progress_def)
  have h2: "fetch_progress unicode_14_decimal (Readable (ustr ''10% 100/1000''))
              = fetch_progress unicode_14_decimal (Readable (ustr ''[ 10% 100/1000 2m remaining]''))"
    by code_simp
  have f3: "fetch_progress unicode_14_decimal (Readable (ustr ''05% 1/2'')) = ustr ''05% (1/2)''" by code_simp
  have h3: "fetch_progress unicode_14_decimal (Readable (ustr ''05% 1/2'')) \<noteq> previous_progress ?st3"
    unfolding f3 by simp
  have 1: "monitor_poll sample_config ?net unicode_14_decimal Absent ?st1 = ?st1"
    using monitor_no_redundant_edit[where decimal = unicode_14_decimal and log = Absent and st = ?st1
        and cfg = sample_config and net = ?net] h1 by blast
  have 2: "monitor_progress sample_config ?net unicode_14_decimal
        [Readable (ustr ''10% 100/1000''), Readable (ustr ''[ 10% 100/1000 2m remaining]'')] sample_state
     = monitor_progress sample_config ?net unicode_14_decimal [Readable (ustr ''10% 100/1000'')] sample_state"
    using monitor_no_redundant_edit[where decimal = unicode_14_decimal and st = sample_state
        and cfg = sample_config and net = ?net and ?log1.0 = "Readable (ustr ''10% 100/1000'')" and ?log2.0 =
        "Readable (ustr ''[ 10% 100/1000 2m remaining]'')"] h2 by blast
  have "api_calls (trace (monitor_poll sample_config ?net unicode_14_decimal (Readable (ustr ''05% 1/2'')) ?st3))
          = api_calls (trace ?st3) @ [progress_call sample_config ?st3 (fetch_progress unicode_14_decimal (Readable (ustr ''05% 1/2'')))]"
    using monitor_no_redundant_edit[where decimal = unicode_14_decimal
        and log = "Readable (ustr ''05% 1/2'')" and st = ?st3 and cfg = sample_config and net = ?net] h3
    by blast
  then have 3: "api_calls (trace (monitor_poll sample_config ?net unicode_14_decimal (Readable (ustr ''05% 1/2'')) ?st3))
     = [EditMessageText ''-100123'' (Some 42) (progress_text sample_config (ustr ''05% (1/2)'')) None]"
    unfolding f3 by (simp add: progress_call_def sample_state_def sample_config_def)
  from 1 2 3 show ?thesis by blast
qed

subsection \<open>Download buttons\<close>

lemma boot_loop_pairs:
  "boot_loop items (buttons, []) = (b, r) \<Longrightarrow>
     (if r \<noteq> [] then b @ [r] else b) = buttons @ pairs (map boot_button items)"
proof (induction items arbitrary: buttons rule: pairs.induct)
  case 1
  then show ?case by simp
next
  case (2 x)
  then show ?case by (cases x) (auto simp: boot_button_def)
next
  case (3 x y zs)
  obtain xn xu yn yu where xy: "x = (xn, xu)" "y = (yn, yu)" by (cases x; cases y)
  from 3(2) have "boot_loop zs (buttons @ [[boot_button x, boot_button y]], []) = (b, r)"
    by (simp add: xy boot_button_def)
  from 3(1)[OF this] show ?case by simp
qed

lemma create_download_buttons_pairs:
  "create_download_buttons rom_url (Some items)
     = [\<lparr>button_text = inbox_tray @ '' Download ROM'', button_url = rom_url\<rparr>]
       # pairs (map boot_button items)"
proof (cases "items = []")
  case True
  then show ?thesis by (simp add: create_download_buttons_def)
next
  case False
  obtain b r where br: "boot_loop items
      ([[\<lparr>button_text = inbox_tray @ '' Download ROM'', button_url = rom_url\<rparr>]], []) = (b, r)"
    by (cases "boot_loop items
      ([[\<lparr>button_text = inbox_tray @ '' Download ROM'', button_url = rom_url\<rparr>]], [])")
  from boot_loop_pairs[OF br] False br show ?thesis
    by (simp add: create_download_buttons_def)
qed

lemma length_pairs: "length (pairs xs) = (length xs + 1) div 2"
  by (induction xs rule: pairs.induct) simp_all

lemma concat_pairs: "concat (pairs xs) = xs"
  by (induction xs rule: pairs.induct) simp_all

lemma nth_pairs_length:
  "i < length (pairs xs) \<Longrightarrow> length (pairs xs ! i) = min 2 (length xs - 2 * i)"
proof (induction xs arbitrary: i rule: pairs.induct)
  case 1 then show ?case by simp
next
  case (2 x) then show ?case by simp
next
  case (3 x y zs)
  then show ?case by (cases i) simp_all
qed

text \<open>
  C8. For every ROM address and every dictionary of \<open>n\<close> boot images, the keyboard has the
  ROM download button alone in its first row; the rows after it hold the boot-image
  buttons in insertion order, two to a row, the last row holding one when \<open>n\<close> is odd;
  there are \<open>1 + \<lceil>n/2\<rceil>\<close> rows. Without a dictionary the keyboard is the first row alone.
\<close>

theorem download_buttons_layout:
  "create_download_buttons rom_url None
     = [[\<lparr>button_text = inbox_tray @ '' Download ROM'', button_url = rom_url\<rparr>]]
   \<and> create_download_buttons rom_url (Some items) ! 0
     = [\<lparr>button_text = inbox_tray @ '' Download ROM'', button_url = rom_url\<rparr>]
   \<and> length (create_download_buttons rom_url (Some items)) = 1 + (length items + 1) div 2
   \<and> concat (tl (create_download_buttons rom_url (Some items))) = map boot_button items
   \<and> (\<forall>i. i < (length items + 1) div 2 \<longrightarrow>
        length (create_download_buttons rom_url (Some items) ! Suc i)
          = min 2 (length items - 2 * i))"
proof (intro conjI allI impI)
  show "create_download_buttons rom_url None
     = [[\<lparr>button_text = inbox_tray @ '' Download ROM'', button_url = rom_url\<rparr>]]"
    by (simp add: create_download_buttons_def)
next
  show "create_download_buttons rom_url (Some items) ! 0
     = [\<lparr>button_text = inbox_tray @ '' Download ROM'', button_url = rom_url\<rparr>]"
    by (simp add: create_download_buttons_pairs)
next
  show "length (create_download_buttons rom_url (Some items)) = 1 + (length items + 1) div 2"
    by (simp add: create_download_buttons_pairs length_pairs)
next
  show "concat (tl (create_download_buttons rom_url (Some items))) = map boot_button items"
    by (simp add: create_download_buttons_pairs concat_pairs)
next
  fix i assume "i < (length items + 1) div 2"
  then have "i < length (pairs (map boot_button items))" by (simp add: length_pairs)
  from nth_pairs_length[OF this]
  show "length (create_download_buttons rom_url (Some items) ! Suc i)
          = min 2 (length items - 2 * i)"
    by (simp add: create_download_buttons_pairs)
qed

text \<open>The three boot images of the script: the third row holds the third button alone.\<close>

theorem download_buttons_layout_witness:
  "length (create_download_buttons ''https://host/rom''
             (Some [(''vendor_boot.img'', ''https://host/vb''), (''boot.img'', ''https://host/b''),
                    (''init_boot.img'', ''https://host/ib'')]) ! Suc 1) = 1"
proof -
  let ?items = "[(''vendor_boot.img'', ''https://host/vb''), (''boot.img'', ''https://host/b''),
                 (''init_boot.img'', ''https://host/ib'')]"
  have h: "(1::nat) < (length ?items + 1) div 2" by simp
  from download_buttons_layout[of "''https://host/rom''" ?items] h
  have "length (create_download_buttons ''https://host/rom'' (Some ?items) ! Suc 1)
          = min 2 (length ?items - 2 * 1)"
    by blast
  then show ?thesis by simp
qed

subsection \<open>Finding the ROM archive\<close>

lemma max_by_mem: "max_by key b xs \<in> set (b # xs)"
  by (induction xs arbitrary: b) auto

lemma max_by_ge: "\<forall>x\<in>set (b # xs). key x \<le> key (max_by key b xs)"
proof (induction xs arbitrary: b)
  case Nil then show ?case by simp
next
  case (Cons a xs)
  from Cons[of "if key b < key a then a else b"] show ?case by (auto split: if_splits)
qed

lemma name_filter_eq:
  "filter (\<lambda>f. \<not> contains ''ota'' (lower (entry_name f))
                 \<and> \<not> contains ''img'' (lower (entry_name f))) (glob entries p)
   = filter (name_ok p) entries"
  by (induction entries) (auto simp: glob_def name_ok_def)

lemma size_filter_None: "size_filter fs = None \<longleftrightarrow> (\<exists>f\<in>set fs. entry_stat f = None)"
  by (induction fs) (auto split: option.splits)

lemma size_filter_Some:
  "size_filter fs = Some kept \<Longrightarrow>
     set kept = {(f, s). f \<in> set fs \<and> entry_stat f = Some s \<and> st_size s > 500 * 1024 * 1024}"
proof (induction fs arbitrary: kept)
  case Nil
  then show ?case by simp
next
  case (Cons f fs)
  from Cons.prems obtain s k where s: "entry_stat f = Some s" and k: "size_filter fs = Some k"
    and kept: "kept = (if st_size s > 500 * 1024 * 1024 then (f, s) # k else k)"
    by (auto split: option.splits)
  from Cons.IH[OF k] show ?case unfolding kept using s by auto
qed

lemma stat_fails_iff:
  "stat_fails entries p \<longleftrightarrow> size_filter (filter (name_ok p) entries) = None"
  by (auto simp: stat_fails_def size_filter_None)

lemma kept_qualifies:
  assumes "size_filter (filter (name_ok p) entries) = Some kept"
  shows "set kept = {(f, s). f \<in> set entries \<and> qualifies p f \<and> entry_stat f = Some s}"
  using size_filter_Some[OF assms] by (auto simp: qualifies_def)

lemma find_in_patterns_step:
  "find_in_patterns out_dir entries (p # ps) =
     (case size_filter (filter (name_ok p) entries) of
        None \<Rightarrow> Inl OSError
      | Some files2 \<Rightarrow>
          (case files2 of
             f # fs \<Rightarrow>
               Inr (Some (path_child out_dir
                            (entry_name (fst (max_by (\<lambda>g. st_mtime (snd g)) f fs)))))
           | [] \<Rightarrow> find_in_patterns out_dir entries ps))"
  using name_filter_eq[of entries p] by (simp add: Let_def)

lemma passed_step:
  "passed entries p \<longleftrightarrow> size_filter (filter (name_ok p) entries) = Some []"
proof
  assume a: "passed entries p"
  then obtain kept where k: "size_filter (filter (name_ok p) entries) = Some kept"
    unfolding passed_def stat_fails_iff by auto
  from kept_qualifies[OF k] a have "set kept = {}" unfolding passed_def by auto
  with k show "size_filter (filter (name_ok p) entries) = Some []" by simp
next
  assume k: "size_filter (filter (name_ok p) entries) = Some []"
  then have 1: "\<not> stat_fails entries p" by (simp add: stat_fails_iff)
  have 2: "\<forall>f\<in>set entries. \<not> qualifies p f"
  proof
    fix f assume f: "f \<in> set entries"
    show "\<not> qualifies p f"
    proof
      assume q: "qualifies p f"
      then obtain s where "entry_stat f = Some s"
        by (auto simp: qualifies_def split: option.splits)
      with f q kept_qualifies[OF k] show False by auto
    qed
  qed
  from 1 2 show "passed entries p" by (simp add: passed_def)
qed

lemma find_in_patterns_None:
  "find_in_patterns out_dir entries ps = Inr None \<longleftrightarrow> (\<forall>p\<in>set ps. passed entries p)"
proof (induction ps)
  case Nil
  then show ?case by simp
next
  case (Cons p ps)
  show ?case
  proof (cases "size_filter (filter (name_ok p) entries)")
    case None
    then have "\<not> passed entries p" by (simp add: passed_step)
    with None show ?thesis by (simp add: find_in_patterns_step del: find_in_patterns.simps)
  next
    case (Some kept)
    show ?thesis
    proof (cases kept)
      case Nil
      with Some have "passed entries p" by (simp add: passed_step)
      with Some Nil Cons show ?thesis
        by (simp add: find_in_patterns_step del: find_in_patterns.simps)
    next
      case (Cons f fs)
      with Some have "\<not> passed entries p" by (simp add: passed_step)
      with Some Cons show ?thesis
        by (simp add: find_in_patterns_step del: find_in_patterns.simps)
    qed
  qed
qed

lemma find_in_patterns_Some:
  assumes "find_in_patterns out_dir entries ps = Inr (Some path)"
  shows "\<exists>before p after f. ps = before @ p # after
           \<and> (\<forall>q\<in>set before. passed entries q)
           \<and> \<not> stat_fails entries p
           \<and> f \<in> set entries \<and> qualifies p f
           \<and> path = path_child out_dir (entry_name f)
           \<and> (\<forall>g\<in>set entries. qualifies p g \<longrightarrow> mtime g \<le> mtime f)"
  using assms
proof (induction ps)
  case Nil
  then show ?case by simp
next
  case (Cons p ps)
  show ?case
  proof (cases "size_filter (filter (name_ok p) entries)")
    case None
    with Cons.prems show ?thesis
      by (simp add: find_in_patterns_step del: find_in_patterns.simps)
  next
    case (Some kept)
    show ?thesis
    proof (cases kept)
      case Nil
      with Some have pp: "passed entries p" by (simp add: passed_step)
      from Some Nil Cons.prems have "find_in_patterns out_dir entries ps = Inr (Some path)"
        by (simp add: find_in_patterns_step del: find_in_patterns.simps)
      from Cons.IH[OF this] obtain before q after f where
        h: "ps = before @ q # after" "\<forall>q\<in>set before. passed entries q"
           "\<not> stat_fails entries q" "f \<in> set entries" "qualifies q f"
           "path = path_child out_dir (entry_name f)"
           "\<forall>g\<in>set entries. qualifies q g \<longrightarrow> mtime g \<le> mtime f"
        by (elim exE conjE)
      have "p # ps = (p # before) @ q # after
           \<and> (\<forall>q\<in>set (p # before). passed entries q)
           \<and> \<not> stat_fails entries q
           \<and> f \<in> set entries \<and> qualifies q f
           \<and> path = path_child out_dir (entry_name f)
           \<and> (\<forall>g\<in>set entries. qualifies q g \<longrightarrow> mtime g \<le> mtime f)"
        using h pp by simp
      then show ?thesis by (intro exI[of _ "p # before"] exI[of _ q] exI[of _ after] exI[of _ f])
    next
      case (Cons x xs)
      let ?m = "max_by (\<lambda>g. st_mtime (snd g)) x xs"
      have nf: "\<not> stat_fails entries p" using Some by (simp add: stat_fails_iff)
      note ks = kept_qualifies[OF Some, unfolded Cons]
      have "?m \<in> set (x # xs)" by (rule max_by_mem)
      with ks have m: "fst ?m \<in> set entries" "qualifies p (fst ?m)"
        "entry_stat (fst ?m) = Some (snd ?m)" by auto
      have ge: "\<forall>g\<in>set entries. qualifies p g \<longrightarrow> mtime g \<le> mtime (fst ?m)"
      proof (intro ballI impI)
        fix g assume g: "g \<in> set entries" "qualifies p g"
        then obtain s where s: "entry_stat g = Some s"
          by (auto simp: qualifies_def split: option.splits)
        with g ks have "(g, s) \<in> set (x # xs)" by auto
        with max_by_ge[of x xs "\<lambda>g. st_mtime (snd g)"]
        have "st_mtime s \<le> st_mtime (snd ?m)" by fastforce
        then show "mtime g \<le> mtime (fst ?m)" using s m(3) by (simp add: mtime_def)
      qed
      from Some Cons Cons.prems have "path = path_child out_dir (entry_name (fst ?m))"
        by (simp add: find_in_patterns_step del: find_in_patterns.simps)
      with m nf ge have "p # ps = [] @ p # ps
           \<and> (\<forall>q\<in>set []. passed entries q)
           \<and> \<not> stat_fails entries p
           \<and> fst ?m \<in> set entries \<and> qualifies p (fst ?m)
           \<and> path = path_child out_dir (entry_name (fst ?m))
           \<and> (\<forall>g\<in>set entries. qualifies p g \<longrightarrow> mtime g \<le> mtime (fst ?m))"
        by simp
      then show ?thesis by (intro exI[of _ "[]"] exI[of _ p] exI[of _ ps] exI[of _ "fst ?m"])
    qed
  qed
qed

lemma find_in_patterns_raises:
  assumes "find_in_patterns out_dir entries ps = Inl e"
  shows "\<exists>before p after. ps = before @ p # after
           \<and> (\<forall>q\<in>set before. passed entries q) \<and> stat_fails entries p"
  using assms
proof (induction ps)
  case Nil
  then show ?case by simp
next
  case (Cons p ps)
  show ?case
  proof (cases "size_filter (filter (name_ok p) entries)")
    case None
    then have "p # ps = [] @ p # ps \<and> (\<forall>q\<in>set []. passed entries q) \<and> stat_fails entries p"
      by (simp add: stat_fails_iff)
    then show ?thesis by (intro exI[of _ "[]"] exI[of _ p] exI[of _ ps])
  next
    case (Some kept)
    show ?thesis
    proof (cases kept)
      case Nil
      with Some have pp: "passed entries p" by (simp add: passed_step)
      from Some Nil Cons.prems have "find_in_patterns out_dir entries ps = Inl e"
        by (simp add: find_in_patterns_step del: find_in_patterns.simps)
      from Cons.IH[OF this] obtain before q after where
        h: "ps = before @ q # after" "\<forall>q\<in>set before. passed entries q" "stat_fails entries q"
        by (elim exE conjE)
      have "p # ps = (p # before) @ q # after
           \<and> (\<forall>q\<in>set (p # before). passed entries q) \<and> stat_fails entries q"
        using h pp by simp
      then show ?thesis by (intro exI[of _ "p # before"] exI[of _ q] exI[of _ after])
    next
      case (Cons x xs)
      with Some Cons.prems show ?thesis
        by (simp add: find_in_patterns_step del: find_in_patterns.simps)
    qed
  qed
qed


text \<open>
  C3 (as amended). \<^const>\<open>find_rom_zip\<close> takes the five patterns in the order of the list.
  A candidate of a pattern is an entry of the directory whose name matches the pattern
  and has neither \<open>ota\<close> nor \<open>img\<close> in its lower-cased form; it qualifies when it is also
  larger than 500 MB. The search passes a pattern when every candidate can be examined
  and none qualifies. Then:
  \<^item> nothing is returned exactly when all five patterns are passed;
  \<^item> a path returned is that of a qualifying entry of the first pattern that is not
    passed, all of whose candidates can be examined, and the entry is modified at least
    as recently as every other qualifying entry of that pattern;
  \<^item> an exception leaves \<^const>\<open>find_rom_zip\<close> only when the first pattern that is not
    passed has a candidate that cannot be examined (a dangling symbolic link).
\<close>

theorem find_rom_zip_first_pattern:
  "(find_rom_zip out_dir entries = Inr None
      \<longleftrightarrow> (\<forall>p\<in>set rom_patterns. passed entries p))
   \<and> (find_rom_zip out_dir entries = Inr (Some path) \<longrightarrow>
        (\<exists>before p after f. rom_patterns = before @ p # after
           \<and> (\<forall>q\<in>set before. passed entries q)
           \<and> \<not> stat_fails entries p
           \<and> f \<in> set entries \<and> qualifies p f
           \<and> path = path_child out_dir (entry_name f)
           \<and> (\<forall>g\<in>set entries. qualifies p g \<longrightarrow> mtime g \<le> mtime f)))
   \<and> (find_rom_zip out_dir entries = Inl e \<longrightarrow>
        (\<exists>before p after. rom_patterns = before @ p # after
           \<and> (\<forall>q\<in>set before. passed entries q) \<and> stat_fails entries p))"
proof (intro conjI impI)
  show "find_rom_zip out_dir entries = Inr None
      \<longleftrightarrow> (\<forall>p\<in>set rom_patterns. passed entries p)"
    unfolding find_rom_zip_def by (rule find_in_patterns_None)
next
  assume "find_rom_zip out_dir entries = Inr (Some path)"
  then show "\<exists>before p after f. rom_patterns = before @ p # after
           \<and> (\<forall>q\<in>set before. passed entries q)
           \<and> \<not> stat_fails entries p
           \<and> f \<in> set entries \<and> qualifies p f
           \<and> path = path_child out_dir (entry_name f)
           \<and> (\<forall>g\<in>set entries. qualifies p g \<longrightarrow> mtime g \<le> mtime f)"
    unfolding find_rom_zip_def by (rule find_in_patterns_Some)
next
  assume "find_rom_zip out_dir entries = Inl e"
  then show "\<exists>before p after. rom_patterns = before @ p # after
           \<and> (\<forall>q\<in>set before. passed entries q) \<and> stat_fails entries p"
    unfolding find_rom_zip_def by (rule find_in_patterns_raises)
qed

text \<open>
  C3 as stated takes the most recently modified candidate across the patterns. With an
  older \<open>axion-\<close> archive and a newer \<open>lineage-\<close> archive, both passing the filters, the
  older one is returned.
\<close>

theorem find_rom_zip_not_newest:
  "find_rom_zip ''/out'' [axion_old, lineage_new] = Inr (Some ''/out/axion-1.zip'')
   \<and> qualifies (''lineage-'', ''.zip'') lineage_new
   \<and> mtime axion_old < mtime lineage_new"
  by (simp add: find_rom_zip_def rom_patterns_def glob_def glob_star_def qualifies_def
        name_ok_def mtime_def axion_old_def lineage_new_def lower_def to_lower_def
        path_child_def join_def)

text \<open>
  The same directory; an empty one; and one where a dangling link \<open>axion-link.zip\<close> stands
  beside a qualifying archive.
\<close>

theorem find_rom_zip_first_pattern_witness:
  "(\<exists>f. f \<in> set [axion_old, lineage_new] \<and> qualifies (''axion-'', ''.zip'') f
        \<and> ''/out/axion-1.zip'' = path_child ''/out'' (entry_name f))
   \<and> find_rom_zip ''/out'' [] = Inr None
   \<and> find_rom_zip ''/out'' [axion_dangling, axion_old] = Inl OSError
   \<and> stat_fails [axion_dangling, axion_old] (''axion-'', ''.zip'')"
proof -
  have s: "find_rom_zip ''/out'' [axion_old, lineage_new] = Inr (Some ''/out/axion-1.zip'')"
    by (simp add: find_rom_zip_def rom_patterns_def glob_def glob_star_def
          axion_old_def lineage_new_def lower_def to_lower_def path_child_def join_def)
  have r: "find_rom_zip ''/out'' [axion_dangling, axion_old] = Inl OSError"
    by (simp add: find_rom_zip_def rom_patterns_def glob_def glob_star_def
          axion_old_def axion_dangling_def lower_def to_lower_def)
  have n: "\<forall>p\<in>set rom_patterns. passed [] p" by (simp add: passed_def stat_fails_def)
  have q_old: "qualifies (''axion-'', ''.zip'') axion_old"
    by (simp add: qualifies_def name_ok_def glob_star_def axion_old_def lower_def to_lower_def)
  have not_lineage: "\<not> passed [axion_old, lineage_new] (''axion-'', ''.zip'')"
    using q_old by (simp add: passed_def)
  note thm1 = find_rom_zip_first_pattern
    [where out_dir = "''/out''" and entries = "[axion_old, lineage_new]"
       and path = "''/out/axion-1.zip''"]
  from thm1[THEN conjunct2, THEN conjunct1, THEN mp, OF s]
  obtain before p after f where
    h: "rom_patterns = before @ p # after" "\<forall>q\<in>set before. passed [axion_old, lineage_new] q"
       "f \<in> set [axion_old, lineage_new]" "qualifies p f"
       "''/out/axion-1.zip'' = path_child ''/out'' (entry_name f)"
    by (elim exE conjE)
  have "before = []"
  proof (cases before)
    case Nil then show ?thesis .
  next
    case (Cons b bs)
    with h(1) have "b = (''axion-'', ''.zip'')" by (simp add: rom_patterns_def)
    with Cons h(2) not_lineage show ?thesis by simp
  qed
  with h(1) have "p = (''axion-'', ''.zip'')" by (simp add: rom_patterns_def)
  with h have 1: "\<exists>f. f \<in> set [axion_old, lineage_new] \<and> qualifies (''axion-'', ''.zip'') f
        \<and> ''/out/axion-1.zip'' = path_child ''/out'' (entry_name f)"
    by (intro exI[of _ f]) simp
  note thm2 = find_rom_zip_first_pattern[where out_dir = "''/out''" and entries = "[]"]
  from thm2[THEN conjunct1] n have 2: "find_rom_zip ''/out'' [] = Inr None" by simp
  note thm3 = find_rom_zip_first_pattern
    [where out_dir = "''/out''" and entries = "[axion_dangling, axion_old]" and e = OSError]
  from thm3[THEN conjunct2, THEN conjunct2, THEN mp, OF r]
  obtain before' p' after' where
    h': "rom_patterns = before' @ p' # after'"
        "\<forall>q\<in>set before'. passed [axion_dangling, axion_old] q"
        "stat_fails [axion_dangling, axion_old] p'"
    by (elim exE conjE)
  have "\<not> passed [axion_dangling, axion_old] (''axion-'', ''.zip'')"
    using q_old by (simp add: passed_def)
  have "before' = []"
  proof (cases before')
    case Nil then show ?thesis .
  next
    case (Cons b bs)
    with h'(1) have "b = (''axion-'', ''.zip'')" by (simp add: rom_patterns_def)
    with Cons h'(2) \<open>\<not> passed [axion_dangling, axion_old] (''axion-'', ''.zip'')\<close>
    show ?thesis by simp
  qed
  with h'(1) have "p' = (''axion-'', ''.zip'')" by (simp add: rom_patterns_def)
  with h'(3) have 3: "stat_fails [axion_dangling, axion_old] (''axion-'', ''.zip'')" by simp
  from 1 2 r 3 show ?thesis by (intro conjI)
qed

subsection \<open>After the build\<close>

lemma send_file_effect:
  "\<exists>lines. length lines \<le> 1 \<and>
     snd (send_file cfg net p chat st)
       = st\<lparr>trace := trace st
            @ (if path_exists st p then [Api (SendDocument (default_chat cfg chat) p)] else [])
            @ map Print lines\<rparr>"
proof (cases "files st p")
  case None
  then have "length [''Error sending file: No such file or directory''] \<le> 1 \<and>
     snd (send_file cfg net p chat st)
       = st\<lparr>trace := trace st
            @ (if path_exists st p then [Api (SendDocument (default_chat cfg chat) p)] else [])
            @ map Print [''Error sending file: No such file or directory'']\<rparr>"
    by (simp add: send_file_def path_exists_def print_def)
  then show ?thesis by blast
next
  case (Some content)
  let ?st1 = "st\<lparr>trace := trace st @ [Api (SendDocument (default_chat cfg chat) p)]\<rparr>"
  have "snd (send_file cfg net p chat st) = ?st1
        \<or> (\<exists>l. snd (send_file cfg net p chat st) = ?st1\<lparr>trace := trace ?st1 @ [Print l]\<rparr>)"
    using Some
    by (cases "net (length (api_calls (trace st)))")
       (auto simp: send_file_def request_def print_def split: option.splits)
  then show ?thesis
  proof
    assume "snd (send_file cfg net p chat st) = ?st1"
    with Some have "length ([]::string list) \<le> 1 \<and>
     snd (send_file cfg net p chat st)
       = st\<lparr>trace := trace st
            @ (if path_exists st p then [Api (SendDocument (default_chat cfg chat) p)] else [])
            @ map Print []\<rparr>"
      by (simp add: path_exists_def)
    then show ?thesis by blast
  next
    assume "\<exists>l. snd (send_file cfg net p chat st) = ?st1\<lparr>trace := trace ?st1 @ [Print l]\<rparr>"
    then obtain l where "snd (send_file cfg net p chat st) = ?st1\<lparr>trace := trace ?st1 @ [Print l]\<rparr>"
      by blast
    with Some have "length [l] \<le> 1 \<and>
     snd (send_file cfg net p chat st)
       = st\<lparr>trace := trace st
            @ (if path_exists st p then [Api (SendDocument (default_chat cfg chat) p)] else [])
            @ map Print [l]\<rparr>"
      by (simp add: path_exists_def)
    then show ?thesis by blast
  qed
qed

lemma path_exists_trace [simp]: "path_exists (st\<lparr>trace := t\<rparr>) p = path_exists st p"
  by (simp add: path_exists_def)

lemma api_calls_snoc_prints:
  "api_calls (t @ cs @ map Print ls) = api_calls t @ api_calls cs"
  by (simp add: api_calls_append api_calls_prints)

lemma check_build_failed:
  assumes e: "files st ''out/error.log'' = Some content" and ne: "content \<noteq> []"
  shows "fst (check_build cfg net returncode st) = BuildFailed"
    and "api_calls (trace (snd (check_build cfg net returncode st)))
           = api_calls (trace st)
             @ [fail_call cfg st, SendDocument (CONFIG_ERROR_CHATID cfg) ''out/error.log'']
             @ (if path_exists st (BUILD_LOG cfg)
                  then [SendDocument (CONFIG_ERROR_CHATID cfg) (BUILD_LOG cfg)] else [])"
proof -
  let ?err = "''out/error.log''" and ?chat = "Some (CONFIG_ERROR_CHATID cfg)"
  let ?st1 = "if use_banner st
                then edit_photo_caption cfg net (build_message_id st) (fail_msg cfg) None None st
              else edit_message cfg net (build_message_id st) (fail_msg cfg) None None st"
  let ?st2 = "snd (send_file cfg net ?err ?chat ?st1)"
  let ?st3 = "if path_exists ?st2 (BUILD_LOG cfg)
                then snd (send_file cfg net (BUILD_LOG cfg) ?chat ?st2) else ?st2"
  have cond: "path_exists st ?err \<and> (case getsize st ?err of Some n \<Rightarrow> n > 0 | None \<Rightarrow> False)"
    using e ne by (simp add: path_exists_def getsize_def)
  have cb: "check_build cfg net returncode st = (BuildFailed, ?st3)"
    using cond by (simp add: check_build_def Let_def)
  then show "fst (check_build cfg net returncode st) = BuildFailed" by simp
  obtain l1 where 1: "?st1 = st\<lparr>trace := trace st @ Api (fail_call cfg st) # map Print l1\<rparr>"
  proof (cases "use_banner st")
    case True
    with edit_photo_caption_trace[of cfg net "build_message_id st" "fail_msg cfg" None None st]
    show ?thesis using that by (auto simp: fail_call_def default_chat_def)
  next
    case False
    with edit_message_trace[of cfg net "build_message_id st" "fail_msg cfg" None None st]
    show ?thesis using that by (auto simp: fail_call_def default_chat_def)
  qed
  have ex1: "path_exists ?st1 ?err" "path_exists ?st1 (BUILD_LOG cfg) = path_exists st (BUILD_LOG cfg)"
    unfolding 1 using cond by simp_all
  from send_file_effect[of cfg net ?err ?chat ?st1] ex1(1)
  obtain l2 where 2: "?st2 = ?st1\<lparr>trace := trace ?st1
       @ [Api (SendDocument (CONFIG_ERROR_CHATID cfg) ?err)] @ map Print l2\<rparr>"
    by (auto simp: default_chat_def)
  have ex2: "path_exists ?st2 (BUILD_LOG cfg) = path_exists st (BUILD_LOG cfg)"
    by (subst 2) (simp add: ex1(2))
  have t2: "api_calls (trace ?st2)
          = api_calls (trace st) @ [fail_call cfg st, SendDocument (CONFIG_ERROR_CHATID cfg) ?err]"
    by (subst 2, subst 1) (simp add: api_calls_append api_calls_prints)
  have t3: "api_calls (trace ?st3) = api_calls (trace ?st2)
             @ (if path_exists st (BUILD_LOG cfg)
                  then [SendDocument (CONFIG_ERROR_CHATID cfg) (BUILD_LOG cfg)] else [])"
  proof (cases "path_exists st (BUILD_LOG cfg)")
    case True
    with ex2 have p: "path_exists ?st2 (BUILD_LOG cfg)" by simp
    from send_file_effect[of cfg net "BUILD_LOG cfg" ?chat ?st2] p
    obtain l3 where "snd (send_file cfg net (BUILD_LOG cfg) ?chat ?st2) = ?st2\<lparr>trace := trace ?st2
       @ [Api (SendDocument (CONFIG_ERROR_CHATID cfg) (BUILD_LOG cfg))] @ map Print l3\<rparr>"
      by (auto simp: default_chat_def)
    then have "api_calls (trace (snd (send_file cfg net (BUILD_LOG cfg) ?chat ?st2)))
        = api_calls (trace ?st2) @ [SendDocument (CONFIG_ERROR_CHATID cfg) (BUILD_LOG cfg)]"
      by (simp add: api_calls_append api_calls_prints)
    with True p show ?thesis by simp
  next
    case False
    with ex2 show ?thesis by simp
  qed
  show "api_calls (trace (snd (check_build cfg net returncode st)))
           = api_calls (trace st)
             @ [fail_call cfg st, SendDocument (CONFIG_ERROR_CHATID cfg) ''out/error.log'']
             @ (if path_exists st (BUILD_LOG cfg)
                  then [SendDocument (CONFIG_ERROR_CHATID cfg) (BUILD_LOG cfg)] else [])"
    unfolding cb snd_conv t3 t2 by simp
qed

lemma check_build_succeeded:
  assumes "\<not> (\<exists>content. files st ''out/error.log'' = Some content \<and> content \<noteq> [])"
  shows "check_build cfg net returncode st = (BuildSucceeded, st)"
proof -
  have "\<not> (path_exists st ''out/error.log''
          \<and> (case getsize st ''out/error.log'' of Some n \<Rightarrow> n > 0 | None \<Rightarrow> False))"
    using assms by (cases "files st ''out/error.log''") (auto simp: path_exists_def getsize_def)
  then show ?thesis by (simp add: check_build_def Let_def)
qed

text \<open>
  C5 (as amended). After the child has exited the build counts as failed exactly when
  \<open>out/error.log\<close> exists and is not empty; the child's exit code has no part in it, so
  an exit code of zero with a non-empty error log is a failure. A failure makes the
  failure edit of the status message, sends the error log to the error channel and,
  when the build log exists, sends the build log there too. A success leaves the state
  as it is.
\<close>

theorem build_failure_by_error_log:
  "(fst (check_build cfg net returncode st) = BuildFailed
      \<longleftrightarrow> (\<exists>content. files st ''out/error.log'' = Some content \<and> content \<noteq> []))
   \<and> check_build cfg net returncode st = check_build cfg net returncode' st
   \<and> (fst (check_build cfg net returncode st) = BuildFailed \<longrightarrow>
        api_calls (trace (snd (check_build cfg net returncode st)))
          = api_calls (trace st)
            @ [fail_call cfg st, SendDocument (CONFIG_ERROR_CHATID cfg) ''out/error.log'']
            @ (if path_exists st (BUILD_LOG cfg)
                 then [SendDocument (CONFIG_ERROR_CHATID cfg) (BUILD_LOG cfg)] else []))
   \<and> (fst (check_build cfg net returncode st) = BuildSucceeded \<longrightarrow>
        snd (check_build cfg net returncode st) = st)"
proof -
  let ?nonempty = "\<exists>content. files st ''out/error.log'' = Some content \<and> content \<noteq> []"
  have indep: "check_build cfg net returncode st = check_build cfg net returncode' st"
    by (simp add: check_build_def)
  show ?thesis
  proof (cases ?nonempty)
    case True
    then obtain content where c: "files st ''out/error.log'' = Some content" "content \<noteq> []"
      by blast
    from check_build_failed[OF c, of cfg net returncode] True indep show ?thesis by simp
  next
    case False
    from check_build_succeeded[OF False, of cfg net returncode] False indep show ?thesis by simp
  qed
qed

text \<open>
  C5 as stated has both logs forwarded on every failure. When the build log is gone
  after the build, the guard \<^verbatim>\<open>if os.path.exists(BUILD_LOG)\<close> skips it: the error
  log alone is sent.
\<close>

theorem build_log_not_forwarded:
  "api_calls (trace (snd (check_build sample_config (\<lambda>n. Reply True JAbsent (Some 7)) 1 failed_no_log)))
     = [EditMessageText ''-100123'' (Some 42) (fail_msg sample_config) None,
        SendDocument ''-100456'' ''out/error.log'']"
proof -
  have f: "files failed_no_log ''out/error.log'' = Some ''ninja: build stopped''"
          "''ninja: build stopped'' \<noteq> []"
    by (simp_all add: failed_no_log_def)
  have b: "\<not> path_exists failed_no_log (BUILD_LOG sample_config)"
    by (simp add: path_exists_def failed_no_log_def BUILD_LOG_def sample_config_def join_def)
  have t: "trace failed_no_log = []" by (simp add: failed_no_log_def sample_state_def)
  have c: "fail_call sample_config failed_no_log
             = EditMessageText ''-100123'' (Some 42) (fail_msg sample_config) None"
    by (simp add: fail_call_def failed_no_log_def sample_state_def sample_config_def)
  have e: "CONFIG_ERROR_CHATID sample_config = ''-100456''" by (simp add: sample_config_def)
  show ?thesis
    unfolding check_build_failed(2)[OF f] using b by (simp add: t c e)
qed

text \<open>
  A non-empty error log with exit code zero and the build log in place; and a state
  without error log.
\<close>

theorem build_failure_by_error_log_witness:
  "fst (check_build sample_config (\<lambda>n. Reply True JAbsent (Some 7)) 0 failed_with_log) = BuildFailed
   \<and> api_calls (trace (snd (check_build sample_config (\<lambda>n. Reply True JAbsent (Some 7)) 0 failed_with_log)))
     = [EditMessageText ''-100123'' (Some 42) (fail_msg sample_config) None,
        SendDocument ''-100456'' ''out/error.log'',
        SendDocument ''-100456'' ''/home/ci/axion/build.log'']
   \<and> snd (check_build sample_config (\<lambda>n. Reply True JAbsent (Some 7)) 0 sample_state) = sample_state"
proof -
  let ?net = "\<lambda>n::nat. Reply True JAbsent (Some 7)"
  have h: "\<exists>content. files failed_with_log ''out/error.log'' = Some content \<and> content \<noteq> []"
    by (simp add: failed_with_log_def)
  have n: "\<not> (\<exists>content. files sample_state ''out/error.log'' = Some content \<and> content \<noteq> [])"
    by (simp add: sample_state_def)
  have b: "path_exists failed_with_log (BUILD_LOG sample_config)"
          "BUILD_LOG sample_config = ''/home/ci/axion/build.log''"
    by (simp_all add: path_exists_def failed_with_log_def BUILD_LOG_def sample_config_def join_def)
  have t: "trace failed_with_log = []" by (simp add: failed_with_log_def sample_state_def)
  have c: "fail_call sample_config failed_with_log
             = EditMessageText ''-100123'' (Some 42) (fail_msg sample_config) None"
    by (simp add: fail_call_def failed_with_log_def sample_state_def sample_config_def)
  have e: "CONFIG_ERROR_CHATID sample_config = ''-100456''" by (simp add: sample_config_def)
  note w = build_failure_by_error_log[of sample_config ?net 0 failed_with_log 0]
  from w h have 1: "fst (check_build sample_config ?net 0 failed_with_log) = BuildFailed"
    by blast
  with w have "api_calls (trace (snd (check_build sample_config ?net 0 failed_with_log)))
          = api_calls (trace failed_with_log)
            @ [fail_call sample_config failed_with_log,
               SendDocument (CONFIG_ERROR_CHATID sample_config) ''out/error.log'']
            @ (if path_exists failed_with_log (BUILD_LOG sample_config)
                 then [SendDocument (CONFIG_ERROR_CHATID sample_config) (BUILD_LOG sample_config)]
               else [])"
    by blast
  then have 2: "api_calls (trace (snd (check_build sample_config ?net 0 failed_with_log)))
     = [EditMessageText ''-100123'' (Some 42) (fail_msg sample_config) None,
        SendDocument ''-100456'' ''out/error.log'',
        SendDocument ''-100456'' ''/home/ci/axion/build.log'']"
    using b by (simp add: t c e)
  note v = build_failure_by_error_log[of sample_config ?net 0 sample_state 0]
  from v n have "fst (check_build sample_config ?net 0 sample_state) \<noteq> BuildFailed" by blast
  then have "fst (check_build sample_config ?net 0 sample_state) = BuildSucceeded"
    by (cases "fst (check_build sample_config ?net 0 sample_state)") simp_all
  with v have 3: "snd (check_build sample_config ?net 0 sample_state) = sample_state" by blast
  from 1 2 3 show ?thesis by blast
qed

subsection \<open>Interruption\<close>

lemma sample_root: "ROOT_DIRECTORY sample_config = ''/home/ci/axion''" by (simp add: sample_config_def)

text \<open>
  C7. On interruption the handler signals the child, edits the status message, removes
  image files and leaves with code 130. The files it looks for are \<open>build_banner.png\<close>,
  \<open>github_avatar.png\<close> and \<open>avatar_circle.png\<close>; the files the banner code writes are
  those of \<^const>\<open>generated_images\<close>. With the logo and its circle left over from a failed
  banner, the handler removes the banner alone, where the cleanup at the end of
  \<^verbatim>\<open>main\<close> removes all three.
\<close>

theorem interrupt_leaves_generated_images:
  "path_exists (handle_interrupt sample_config (\<lambda>n. Reply True JAbsent None) 2 banner_left_over)
      ''/home/ci/axion/rom_logo.png''
   \<and> path_exists (handle_interrupt sample_config (\<lambda>n. Reply True JAbsent None) 2 banner_left_over)
      ''/home/ci/axion/logo_circle.png''
   \<and> \<not> path_exists (cleanup_temporary_files sample_config banner_left_over)
      ''/home/ci/axion/rom_logo.png''
   \<and> \<not> path_exists (cleanup_temporary_files sample_config banner_left_over)
      ''/home/ci/axion/logo_circle.png''
   \<and> ''rom_logo.png'' \<in> set generated_images \<and> ''logo_circle.png'' \<in> set generated_images
   \<and> trace (handle_interrupt sample_config (\<lambda>n. Reply True JAbsent None) 2 banner_left_over)
     = [Terminate 4711,
        Api (EditMessageText ''-100123'' (Some 42) (interrupt_msg sample_config) None),
        Remove ''/home/ci/axion/build_banner.png'',
        Exit 130]"
  by (simp add: handle_interrupt_def cleanup_temporary_files_def remove_if_exists_def
        path_exists_def banner_left_over_def sample_state_def sample_root join_def truthy_id_def
        edit_message_def request_def edit_result_def default_chat_def generated_images_def
        Let_def)
     (simp add: sample_config_def)

subsection \<open>Upload to remote storage\<close>

lemma reported_present_lsf: "reported_present env p \<Longrightarrow> lsf env p \<noteq> None"
  by (simp add: reported_present_def split: option.splits)

lemma candidate_next:
  "version < j \<Longrightarrow>
     candidate parts (fst parts @ '' ('' @ str (version + 1) @ '')'' @ snd parts) (version + 1) j
       = candidate parts file_name version j"
  by (simp add: candidate_def)


lemma version_loop_run:
  assumes "\<forall>j. version \<le> j \<and> j < k \<longrightarrow>
             reported_present env (base_path @ ''/'' @ candidate parts file_name version j)"
    and "version \<le> k"
    and "lsf env (base_path @ ''/'' @ candidate parts file_name version k) \<noteq> None"
    and "\<not> reported_present env (base_path @ ''/'' @ candidate parts file_name version k)"
  shows "version_loop env base_path parts version file_name tr
           = Some (Some (k, candidate parts file_name version k),
                   tr @ map (\<lambda>j. RcloneLsf (base_path @ ''/'' @ candidate parts file_name version j))
                          [version..<Suc k])"
  using assms
proof (induction "k - version" arbitrary: version file_name tr)
  case 0
  then have kv: "k = version" by simp
  from 0(4) obtain r where "lsf env (base_path @ ''/'' @ file_name) = Some r"
    unfolding kv by (auto simp: candidate_def)
  with 0(5) show ?case
    unfolding kv by (subst version_loop.simps) (simp add: candidate_def Let_def)
next
  case (Suc d)
  then have lt: "version < k" by simp
  let ?p = "base_path @ ''/'' @ file_name"
  let ?n1 = "fst parts @ '' ('' @ str (version + 1) @ '')'' @ snd parts"
  have pres: "reported_present env ?p"
    using Suc(3) lt by (auto simp: candidate_def)
  from reported_present_lsf[OF pres] obtain r where r: "lsf env ?p = Some r" by auto
  have step: "version_loop env base_path parts version file_name tr
        = version_loop env base_path parts (version + 1) ?n1 (tr @ [RcloneLsf ?p])"
    using pres r by (subst version_loop.simps) (simp add: Let_def)
  have c: "\<And>j. version < j \<Longrightarrow> candidate parts ?n1 (version + 1) j = candidate parts file_name version j"
    by (rule candidate_next)
  have ih: "version_loop env base_path parts (version + 1) ?n1 (tr @ [RcloneLsf ?p])
      = Some (Some (k, candidate parts ?n1 (version + 1) k),
              (tr @ [RcloneLsf ?p])
              @ map (\<lambda>j. RcloneLsf (base_path @ ''/'' @ candidate parts ?n1 (version + 1) j))
                  [version + 1..<Suc k])"
  proof (rule Suc(1))
    show "d = k - (version + 1)" using Suc(2) by simp
    show "\<forall>j. version + 1 \<le> j \<and> j < k \<longrightarrow>
            reported_present env (base_path @ ''/'' @ candidate parts ?n1 (version + 1) j)"
      using Suc(3) c by auto
    show "version + 1 \<le> k" using lt by simp
    show "lsf env (base_path @ ''/'' @ candidate parts ?n1 (version + 1) k) \<noteq> None"
      using Suc(5) c[OF lt] by simp
    show "\<not> reported_present env (base_path @ ''/'' @ candidate parts ?n1 (version + 1) k)"
      using Suc(6) c[OF lt] by simp
  qed
  have m: "map (\<lambda>j. RcloneLsf (base_path @ ''/'' @ candidate parts ?n1 (version + 1) j))
                  [version + 1..<Suc k]
         = map (\<lambda>j. RcloneLsf (base_path @ ''/'' @ candidate parts file_name version j))
                  [version + 1..<Suc k]"
    using c by (intro map_cong) auto
  have u: "[version..<Suc k] = version # [version + 1..<Suc k]"
    using lt by (simp add: upt_conv_Cons)
  show ?case
    unfolding step ih m u using c[OF lt] by (simp add: candidate_def)
qed

lemma basename_no_slash: "CHR ''/'' \<notin> set (basename p)"
proof -
  have "\<forall>c\<in>set (takeWhile (\<lambda>c. c \<noteq> CHR ''/'') (rev p)). c \<noteq> CHR ''/''"
    by (auto dest: set_takeWhileD)
  then show ?thesis by (auto simp: basename_def rfind_slash_def Let_def)
qed

lemma basename_id: "CHR ''/'' \<notin> set n \<Longrightarrow> basename n = n"
proof -
  assume "CHR ''/'' \<notin> set n"
  then have t: "takeWhile (\<lambda>c. c \<noteq> CHR ''/'') (rev n) = rev n"
    by (intro takeWhile_eq_all_conv[THEN iffD2]) auto
  show ?thesis unfolding basename_def rfind_slash_def Let_def t by simp
qed

lemma basename_append_slash:
  assumes "CHR ''/'' \<notin> set n"
  shows "basename (a @ ''/'' @ n) = n"
proof -
  have "rev (a @ ''/'' @ n) = rev n @ CHR ''/'' # rev a" by simp
  moreover have "takeWhile (\<lambda>c. c \<noteq> CHR ''/'') (rev n @ CHR ''/'' # rev a) = rev n"
    using assms by (subst takeWhile_append2) auto
  ultimately show ?thesis by (simp add: basename_def rfind_slash_def Let_def)
qed

lemma basename_join:
  assumes "CHR ''/'' \<notin> set n"
  shows "basename (join d n) = n"
proof (cases "n \<noteq> [] \<and> hd n = CHR ''/''")
  case True
  then have "CHR ''/'' \<in> set n" by (cases n) auto
  with assms show ?thesis by simp
next
  case False
  show ?thesis
  proof (cases "d = []")
    case True
    with False assms show ?thesis by (simp add: join_def basename_id)
  next
    case d: False
    show ?thesis
    proof (cases "last d = CHR ''/''")
      case True
      with d have "d = butlast d @ ''/''" by (metis append_butlast_last_id)
      then have "join d n = butlast d @ ''/'' @ n"
        using False d True by (simp add: join_def)
      then show ?thesis using basename_append_slash[OF assms] by simp
    next
      case l: False
      with False d have "join d n = d @ ''/'' @ n" by (simp add: join_def)
      then show ?thesis using basename_append_slash[OF assms] by simp
    qed
  qed
qed

lemma digit_char_not_slash: "digit_char d \<noteq> CHR ''/''"
proof -
  have "d mod 10 < length ''0123456789''" by simp
  then have "''0123456789'' ! (d mod 10) \<in> set ''0123456789''" by (rule nth_mem)
  moreover have "CHR ''/'' \<notin> set ''0123456789''" by simp
  ultimately show ?thesis unfolding digit_char_def by metis
qed

lemma str_no_slash: "CHR ''/'' \<notin> set (str n)"
proof (induction n rule: str.induct)
  case (1 n)
  show ?case
  proof (cases "n < 10")
    case True
    then show ?thesis by (subst str.simps) (simp add: digit_char_not_slash digit_char_not_slash[symmetric])
  next
    case False
    with 1 show ?thesis
      by (subst str.simps) (simp add: digit_char_not_slash digit_char_not_slash[symmetric])
  qed
qed

lemma splitext_parts_subset:
  "set (fst (splitext n)) \<subseteq> set n" "set (snd (splitext n)) \<subseteq> set n"
proof -
  let ?name = "basename n"
  let ?ext = "rev (takeWhile (\<lambda>c. c \<noteq> CHR ''.'') (rev ?name))"
  have e: "set ?ext \<subseteq> set ?name" by (auto dest: set_takeWhileD)
  have b: "set ?name \<subseteq> set n"
    by (auto simp: basename_def rfind_slash_def Let_def dest: set_takeWhileD)
  show "set (fst (splitext n)) \<subseteq> set n"
    by (auto simp: splitext_def Let_def dest: in_set_takeD)
  show "set (snd (splitext n)) \<subseteq> set n"
    using e b by (auto simp: splitext_def Let_def)
qed

lemma candidate_no_slash:
  assumes "CHR ''/'' \<notin> set original"
  shows "CHR ''/'' \<notin> set (versioned original j)"
  using assms splitext_parts_subset[of original] str_no_slash[of j]
  by (auto simp: versioned_def candidate_def)

lemma rfind_slash_append: "fst (rfind_slash p) @ snd (rfind_slash p) = p"
proof -
  let ?tail = "rev (takeWhile (\<lambda>c. c \<noteq> CHR ''/'') (rev p))"
  have "rev p = takeWhile (\<lambda>c. c \<noteq> CHR ''/'') (rev p) @ dropWhile (\<lambda>c. c \<noteq> CHR ''/'') (rev p)"
    by simp
  then have "p = rev (dropWhile (\<lambda>c. c \<noteq> CHR ''/'') (rev p)) @ ?tail"
    by (metis rev_append rev_rev_ident)
  then have "take (length p - length ?tail) p = rev (dropWhile (\<lambda>c. c \<noteq> CHR ''/'') (rev p))"
    by (metis add_diff_cancel_right' append_eq_conv_conj length_append)
  with \<open>p = rev (dropWhile (\<lambda>c. c \<noteq> CHR ''/'') (rev p)) @ ?tail\<close>
  show ?thesis by (simp add: rfind_slash_def Let_def)
qed

lemma splitext_append: "fst (splitext p) @ snd (splitext p) = p"
proof (cases "CHR ''.'' \<in> set (basename p)
    \<and> \<not> list_all (\<lambda>c. c = CHR ''.'')
         (take (length (basename p)
                 - length (rev (takeWhile (\<lambda>c. c \<noteq> CHR ''.'') (rev (basename p)))) - 1)
            (basename p))")
  case False
  then show ?thesis by (auto simp: splitext_def Let_def)
next
  case True
  let ?name = "basename p"
  let ?rext = "takeWhile (\<lambda>c. c \<noteq> CHR ''.'') (rev ?name)"
  let ?rest = "dropWhile (\<lambda>c. c \<noteq> CHR ''.'') (rev ?name)"
  from True have "CHR ''.'' \<in> set (rev ?name)" by simp
  then have "?rest \<noteq> []" by (simp add: dropWhile_eq_Nil_conv)
  then obtain r where r: "?rest = CHR ''.'' # r"
    using hd_dropWhile[of "\<lambda>c. c \<noteq> CHR ''.''" "rev ?name"] by (cases ?rest) auto
  have "rev ?name = ?rext @ ?rest" by simp
  then have "?name = rev ?rest @ rev ?rext" by (metis rev_append rev_rev_ident)
  then have name: "?name = rev r @ CHR ''.'' # rev ?rext" using r by simp
  have p: "p = fst (rfind_slash p) @ ?name"
    using rfind_slash_append[of p] by (simp add: basename_def)
  then have p2: "p = (fst (rfind_slash p) @ rev r) @ CHR ''.'' # rev ?rext"
    using name by (metis append_assoc)
  have "take (length p - length (rev ?rext) - 1) p = fst (rfind_slash p) @ rev r"
    by (subst (1 2) p2) simp
  then have "take (length p - length (rev ?rext) - 1) p @ CHR ''.'' # rev ?rext = p"
    using p2 by simp
  with True show ?thesis by (simp add: splitext_def Let_def)
qed

lemma versioned_differs: "0 < j \<Longrightarrow> versioned original j \<noteq> original"
proof -
  assume "0 < j"
  then have "length (versioned original j)
      = length (fst (splitext original)) + length (snd (splitext original)) + 3 + length (str j)"
    by (simp add: versioned_def candidate_def)
  moreover have "length original
      = length (fst (splitext original)) + length (snd (splitext original))"
    using splitext_append[of original] by (metis length_append)
  ultimately show ?thesis by auto
qed

lemma splitext_stem_ext:
  assumes "\<exists>c\<in>set x. c \<noteq> CHR ''.''" "CHR ''/'' \<notin> set x"
    and "CHR ''.'' \<notin> set ext" "CHR ''/'' \<notin> set ext"
  shows "splitext (x @ ''.'' @ ext) = (x, ''.'' @ ext)"
proof -
  let ?p = "x @ ''.'' @ ext"
  have ns: "CHR ''/'' \<notin> set ?p" using assms by simp
  have b: "basename ?p = ?p" by (rule basename_id[OF ns])
  have "rev ?p = rev ext @ CHR ''.'' # rev x" by simp
  moreover have "takeWhile (\<lambda>c. c \<noteq> CHR ''.'') (rev ext @ CHR ''.'' # rev x) = rev ext"
    using assms(3) by (subst takeWhile_append2) auto
  ultimately have e: "rev (takeWhile (\<lambda>c. c \<noteq> CHR ''.'') (rev ?p)) = ext" by simp
  have st: "take (length ?p - length ext - 1) ?p = x" by simp
  have nd: "\<not> list_all (\<lambda>c. c = CHR ''.'') x" using assms(1) by (auto simp: list_all_iff)
  have d: "CHR ''.'' \<in> set ?p" by simp
  show ?thesis
    unfolding splitext_def b Let_def e st using nd d by simp
qed


lemma local_copy_differs: "0 < k \<Longrightarrow> local_copy file_path k \<noteq> file_path"
proof
  assume k: "0 < k" and e: "local_copy file_path k = file_path"
  have ns: "CHR ''/'' \<notin> set (versioned (basename file_path) k)"
    by (rule candidate_no_slash[OF basename_no_slash])
  from e k have "basename (join (dirname file_path) (versioned (basename file_path) k))
                   = basename file_path"
    by (simp add: local_copy_def)
  then have "versioned (basename file_path) k = basename file_path"
    by (simp add: basename_join[OF ns])
  with versioned_differs[OF k] show False by blast
qed


lemma version_loop_from_start:
  assumes "\<forall>j<k. reported_present env (base_path @ ''/'' @ versioned name j)"
    and "lsf env (base_path @ ''/'' @ versioned name k) \<noteq> None"
    and "\<not> reported_present env (base_path @ ''/'' @ versioned name k)"
  shows "version_loop env base_path (splitext name) 0 name tr
           = Some (Some (k, versioned name k),
                   tr @ map (\<lambda>j. RcloneLsf (base_path @ ''/'' @ versioned name j)) [0..<Suc k])"
  using version_loop_run[of 0 k env base_path "splitext name" name tr] assms
  unfolding versioned_def by simp

lemma upload_rclone_run:
  assumes exists: "files st file_path = Some content"
    and present: "\<forall>j<k. reported_present env (remote_dest cfg @ ''/'' @ versioned (basename file_path) j)"
    and answered: "lsf env (remote_dest cfg @ ''/'' @ versioned (basename file_path) k) \<noteq> None"
    and free: "\<not> reported_present env (remote_dest cfg @ ''/'' @ versioned (basename file_path) k)"
    and copied: "0 < k \<longrightarrow> copy2_outcome env file_path (local_copy file_path k) = Copied"
    and ran: "copy env (local_copy file_path k) (remote_dest cfg) = Some rc"
    and removed: "0 < k \<longrightarrow> \<not> remove_fails env (local_copy file_path k)"
  shows "upload_rclone cfg env file_path st =
     Some (transfer_result env (remote_dest cfg @ ''/'' @ versioned (basename file_path) k) rc,
           st\<lparr>files := (if k = 0 then files st else (files st)(local_copy file_path k := None)),
              trace := trace st @ transfer_events cfg file_path k rc\<rparr>)"
proof -
  let ?name = "basename file_path"
  let ?dest = "remote_dest cfg"
  have size: "getsize st file_path = Some (length content)"
    using exists by (simp add: getsize_def)
  have loop: "version_loop env ?dest (splitext ?name) 0 ?name (trace st)
      = Some (Some (k, versioned ?name k),
              trace st @ map (\<lambda>j. RcloneLsf (?dest @ ''/'' @ versioned ?name j)) [0..<Suc k])"
    by (rule version_loop_from_start[OF present answered free])
  have dest: "(if RCLONE_FOLDER cfg \<noteq> [] then RCLONE_REMOTE cfg @ '':'' @ RCLONE_FOLDER cfg
               else RCLONE_REMOTE cfg @ '':'') = ?dest"
    by (simp add: remote_dest_def)
  show ?thesis
  proof (cases "k = 0")
    case True
    have v0: "versioned ?name 0 = ?name" by (simp add: versioned_def candidate_def)
    have l0: "local_copy file_path 0 = file_path" by (simp add: local_copy_def)
    from ran have ran0: "copy env file_path ?dest = Some rc" unfolding True l0 .
    show ?thesis
      unfolding upload_rclone_def Let_def size dest option.case loop[unfolded True]
      by (simp add: v0 l0 ran0 True transfer_result_def transfer_events_def
            split: option.splits)
  next
    case False
    then have k: "0 < k" by simp
    have vk: "versioned ?name k \<noteq> ?name" by (rule versioned_differs[OF k])
    have lk: "join (dirname file_path) (versioned ?name k) = local_copy file_path k"
      using k by (simp add: local_copy_def)
    have ne: "local_copy file_path k \<noteq> file_path" by (rule local_copy_differs[OF k])
    from copied k have c: "copy2_outcome env file_path (local_copy file_path k) = Copied" by simp
    from removed k have r: "\<not> remove_fails env (local_copy file_path k)" by simp
    show ?thesis
      unfolding upload_rclone_def Let_def size dest option.case loop
      by (simp add: vk lk ne c r ran exists False copy2_def remove_def path_exists_def
            transfer_result_def transfer_events_def split: option.splits)
  qed
qed






lemma str_small: "str 0 = ''0''" "str (Suc 0) = ''1''" "str 2 = ''2''"
  by (simp_all add: str.simps[of 0] str.simps[of "Suc 0"] str.simps[of 2] digit_char_def)

lemma sample_names:
  "basename ''/out/axion-1.zip'' = ''axion-1.zip''"
  "dirname ''/out/axion-1.zip'' = ''/out''"
  "versioned ''axion-1.zip'' 0 = ''axion-1.zip''"
  "versioned ''axion-1.zip'' (Suc 0) = ''axion-1 (1).zip''"
  "versioned ''axion-1.zip'' 2 = ''axion-1 (2).zip''"
  "local_copy ''/out/axion-1.zip'' (Suc 0) = ''/out/axion-1 (1).zip''"
  "remote_dest sample_config = ''gdrive:roms''"
proof -
  show b: "basename ''/out/axion-1.zip'' = ''axion-1.zip''"
    by (simp add: basename_def rfind_slash_def)
  show d: "dirname ''/out/axion-1.zip'' = ''/out''"
    by (simp add: dirname_def rfind_slash_def)
  have s: "splitext ''axion-1.zip'' = (''axion-1'', ''.zip'')"
    using splitext_stem_ext[of "''axion-1''" "''zip''"] by simp
  show "versioned ''axion-1.zip'' 0 = ''axion-1.zip''"
    by (simp add: versioned_def candidate_def)
  show v1: "versioned ''axion-1.zip'' (Suc 0) = ''axion-1 (1).zip''"
    by (simp add: versioned_def candidate_def s str_small)
  show "versioned ''axion-1.zip'' 2 = ''axion-1 (2).zip''"
    by (simp add: versioned_def candidate_def s str_small)
  show "local_copy ''/out/axion-1.zip'' (Suc 0) = ''/out/axion-1 (1).zip''"
    by (simp add: local_copy_def b d v1 join_def)
  show "remote_dest sample_config = ''gdrive:roms''"
    by (simp add: remote_dest_def sample_config_def)
qed

lemma built_trace: "trace built = []"
  by (simp add: built_def sample_state_def)

lemma strip_link: "strip ''https://drive.example/f/1\<newline>'' = ''https://drive.example/f/1''"
  by (simp add: strip_def is_space_def)





subsection \<open>The choice between remote storage and public host\<close>

lemma upload_gofile_cases:
  "upload_gofile env file_path st =
     (case files st file_path of
        None \<Rightarrow> (Inl ''FileNotFoundError'', st)
      | Some content \<Rightarrow>
          (case servers env of
             None \<Rightarrow> (Inr PyNone, st\<lparr>trace := trace st @ [GoFileServers]\<rparr>)
           | Some server \<Rightarrow>
               (case uploadfile env server file_path of
                  Some (StatusOk (Some url)) \<Rightarrow>
                    (Inr url, st\<lparr>trace := trace st @ [GoFileServers, GoFileUpload server file_path]\<rparr>)
                | _ \<Rightarrow>
                    (Inr PyNone,
                     st\<lparr>trace := trace st @ [GoFileServers, GoFileUpload server file_path]\<rparr>))))"
  by (simp add: upload_gofile_def getsize_def Let_def
        split: option.splits gofile_reply.splits)

lemma upload_file_unconfigured:
  assumes "RCLONE_REMOTE cfg = []" "upload_gofile env file_path st = (Inr g, st2)"
  shows "upload_file cfg env file_path st
           = Some (Inr (if truthy g then g else PyStr ''Upload failed''), st2)"
  using assms by (simp add: upload_file_def)

lemma upload_file_rclone:
  assumes "RCLONE_REMOTE cfg \<noteq> []" "upload_rclone cfg env file_path st = Some (Inr (Some u), st1)"
    "u \<noteq> []"
  shows "upload_file cfg env file_path st = Some (Inr (PyStr u), st1)"
  using assms by (simp add: upload_file_def)

lemma upload_file_after_rclone:
  assumes "RCLONE_REMOTE cfg \<noteq> []" "upload_rclone cfg env file_path st = Some (Inr u, st1)"
    "u = None \<or> u = Some []" "upload_gofile env file_path st1 = (Inr g, st2)"
  shows "upload_file cfg env file_path st
           = Some (Inr (if truthy g then g else PyStr ''Upload failed''), st2)"
  using assms by (auto simp: upload_file_def)

lemma upload_file_failed:
  assumes "upload_file cfg env file_path st = Some (Inr (PyStr ''Upload failed''), st3)"
  shows "(RCLONE_REMOTE cfg \<noteq> []
           \<and> upload_rclone cfg env file_path st = Some (Inr (Some ''Upload failed''), st3))
         \<or> (\<exists>st1 g. ((RCLONE_REMOTE cfg = [] \<and> st1 = st)
                       \<or> (RCLONE_REMOTE cfg \<noteq> []
                           \<and> (\<exists>u. upload_rclone cfg env file_path st = Some (Inr u, st1)
                                    \<and> (u = None \<or> u = Some []))))
                   \<and> upload_gofile env file_path st1 = (Inr g, st3)
                   \<and> (\<not> truthy g \<or> g = PyStr ''Upload failed''))"
proof (cases "RCLONE_REMOTE cfg = []")
  case True
  obtain r st2 where g: "upload_gofile env file_path st = (r, st2)" by (cases "upload_gofile env file_path st")
  from assms True g obtain v where r: "r = Inr v" and st: "st2 = st3"
    and v: "(if truthy v then v else PyStr ''Upload failed'') = PyStr ''Upload failed''"
    by (cases r) (auto simp: upload_file_def)
  from v have "\<not> truthy v \<or> v = PyStr ''Upload failed''" by (auto split: if_splits)
  with True g r st have "((RCLONE_REMOTE cfg = [] \<and> st = st)
                       \<or> (RCLONE_REMOTE cfg \<noteq> []
                           \<and> (\<exists>u. upload_rclone cfg env file_path st = Some (Inr u, st)
                                    \<and> (u = None \<or> u = Some []))))
                   \<and> upload_gofile env file_path st = (Inr v, st3)
                   \<and> (\<not> truthy v \<or> v = PyStr ''Upload failed'')" by simp
  then show ?thesis by (intro disjI2 exI[of _ st] exI[of _ v])
next
  case False
  from assms False obtain a st1 where rc: "upload_rclone cfg env file_path st = Some (a, st1)"
    by (cases "upload_rclone cfg env file_path st") (auto simp: upload_file_def)
  from assms False rc obtain u where a: "a = Inr u"
    by (cases a) (auto simp: upload_file_def)
  show ?thesis
  proof (cases "\<exists>s. u = Some s \<and> s \<noteq> []")
    case True
    then obtain s where s: "u = Some s" "s \<noteq> []" by blast
    with assms False rc a have "s = ''Upload failed''" "st1 = st3" by (auto simp: upload_file_def)
    with False rc a s show ?thesis by simp
  next
    case nf: False
    then have u: "u = None \<or> u = Some []" by (cases u) auto
    obtain r st2 where g: "upload_gofile env file_path st1 = (r, st2)"
      by (cases "upload_gofile env file_path st1")
    from assms False rc a u g obtain v where r: "r = Inr v" and st: "st2 = st3"
      and v: "(if truthy v then v else PyStr ''Upload failed'') = PyStr ''Upload failed''"
      by (cases r) (auto simp: upload_file_def)
    from v have "\<not> truthy v \<or> v = PyStr ''Upload failed''" by (auto split: if_splits)
    with False rc a u g r st have "((RCLONE_REMOTE cfg = [] \<and> st1 = st)
                       \<or> (RCLONE_REMOTE cfg \<noteq> []
                           \<and> (\<exists>u. upload_rclone cfg env file_path st = Some (Inr u, st1)
                                    \<and> (u = None \<or> u = Some []))))
                   \<and> upload_gofile env file_path st1 = (Inr v, st3)
                   \<and> (\<not> truthy v \<or> v = PyStr ''Upload failed'')" by simp
    then show ?thesis by (intro disjI2 exI[of _ st1] exI[of _ v])
  qed
qed

lemma upload_file_missing:
  assumes "files st file_path = None"
  shows "upload_file cfg env file_path st = Some (Inl ''FileNotFoundError'', st)"
  using assms
  by (simp add: upload_file_def upload_rclone_def upload_gofile_def getsize_def)

lemma upload_file_linked:
  assumes "RCLONE_REMOTE cfg \<noteq> []"
    and "files st file_path = Some content"
    and "\<forall>j<k. reported_present env (remote_dest cfg @ ''/'' @ versioned (basename file_path) j)"
    and "lsf env (remote_dest cfg @ ''/'' @ versioned (basename file_path) k) \<noteq> None"
    and "\<not> reported_present env (remote_dest cfg @ ''/'' @ versioned (basename file_path) k)"
    and "0 < k \<longrightarrow> copy2_outcome env file_path (local_copy file_path k) = Copied"
    and "copy env (local_copy file_path k) (remote_dest cfg) = Some 0"
    and "0 < k \<longrightarrow> \<not> remove_fails env (local_copy file_path k)"
    and l: "link env (remote_dest cfg @ ''/'' @ versioned (basename file_path) k) = Some lr"
    and ne: "fst lr = 0 \<longrightarrow> strip (snd lr) \<noteq> []"
  shows "upload_file cfg env file_path st
           = Some (Inr (PyStr (if fst lr = 0 then strip (snd lr)
                               else remote_dest cfg @ ''/'' @ versioned (basename file_path) k)),
                   st\<lparr>files := (if k = 0 then files st
                                 else (files st)(local_copy file_path k := None)),
                      trace := trace st @ transfer_events cfg file_path k 0\<rparr>)"
proof -
  let ?path = "remote_dest cfg @ ''/'' @ versioned (basename file_path) k"
  let ?u = "if fst lr = 0 then strip (snd lr) else ?path"
  have r: "transfer_result env ?path 0 = Inr (Some ?u)"
    using l by (simp add: transfer_result_def)
  have u: "?u \<noteq> []" using ne by simp
  have "upload_rclone cfg env file_path st
          = Some (Inr (Some ?u),
                  st\<lparr>files := (if k = 0 then files st
                                else (files st)(local_copy file_path k := None)),
                     trace := trace st @ transfer_events cfg file_path k 0\<rparr>)"
    using upload_rclone_run[OF assms(2-8)] unfolding r .
  from upload_file_rclone[OF assms(1) this u] show ?thesis .
qed


text \<open>
  C1 (as amended). \<^const>\<open>upload_file\<close> returns what \<^const>\<open>upload_rclone\<close> returns
  when a remote is configured and that is a non-empty string; in particular, after a
  transfer with return code zero, the link, or the remote path when the link command
  fails, and the public host is not asked. When no remote is configured, and when
  \<^const>\<open>upload_rclone\<close> returns \<^verbatim>\<open>None\<close> or an empty string, it returns what
  \<^const>\<open>upload_gofile\<close> returns if that is a true value, and \<open>Upload failed\<close>
  otherwise. So \<open>Upload failed\<close> is returned only when the public host was tried and gave
  no true value (or gave these very words), whether the remote storage was tried before
  or not; or when the remote storage returned these very words. A file that does not
  exist makes \<^verbatim>\<open>os.path.getsize\<close> raise, and the exception leaves
  \<^const>\<open>upload_file\<close>.
\<close>

theorem upload_file_fallback:
  "(RCLONE_REMOTE cfg \<noteq> [] \<and> upload_rclone cfg env file_path st = Some (Inr (Some u), st1)
      \<and> u \<noteq> []
     \<longrightarrow> upload_file cfg env file_path st = Some (Inr (PyStr u), st1))
   \<and> (RCLONE_REMOTE cfg \<noteq> [] \<and> files st file_path = Some content
      \<and> (\<forall>j<k. reported_present env (remote_dest cfg @ ''/'' @ versioned (basename file_path) j))
      \<and> lsf env (remote_dest cfg @ ''/'' @ versioned (basename file_path) k) \<noteq> None
      \<and> \<not> reported_present env (remote_dest cfg @ ''/'' @ versioned (basename file_path) k)
      \<and> (0 < k \<longrightarrow> copy2_outcome env file_path (local_copy file_path k) = Copied
                    \<and> \<not> remove_fails env (local_copy file_path k))
      \<and> copy env (local_copy file_path k) (remote_dest cfg) = Some 0
      \<and> link env (remote_dest cfg @ ''/'' @ versioned (basename file_path) k) = Some lr
      \<and> (fst lr = 0 \<longrightarrow> strip (snd lr) \<noteq> [])
     \<longrightarrow> upload_file cfg env file_path st
           = Some (Inr (PyStr (if fst lr = 0 then strip (snd lr)
                               else remote_dest cfg @ ''/'' @ versioned (basename file_path) k)),
                   st\<lparr>files := (if k = 0 then files st
                                 else (files st)(local_copy file_path k := None)),
                      trace := trace st @ transfer_events cfg file_path k 0\<rparr>))
   \<and> (RCLONE_REMOTE cfg = [] \<and> upload_gofile env file_path st = (Inr g, st2)
     \<longrightarrow> upload_file cfg env file_path st
           = Some (Inr (if truthy g then g else PyStr ''Upload failed''), st2))
   \<and> (RCLONE_REMOTE cfg \<noteq> [] \<and> upload_rclone cfg env file_path st = Some (Inr u', st1')
      \<and> (u' = None \<or> u' = Some []) \<and> upload_gofile env file_path st1' = (Inr g', st2')
     \<longrightarrow> upload_file cfg env file_path st
           = Some (Inr (if truthy g' then g' else PyStr ''Upload failed''), st2'))
   \<and> (upload_file cfg env file_path st = Some (Inr (PyStr ''Upload failed''), st3)
     \<longrightarrow> (RCLONE_REMOTE cfg \<noteq> []
           \<and> upload_rclone cfg env file_path st = Some (Inr (Some ''Upload failed''), st3))
         \<or> (\<exists>st1 g. ((RCLONE_REMOTE cfg = [] \<and> st1 = st)
                       \<or> (RCLONE_REMOTE cfg \<noteq> []
                           \<and> (\<exists>u. upload_rclone cfg env file_path st = Some (Inr u, st1)
                                    \<and> (u = None \<or> u = Some []))))
                   \<and> upload_gofile env file_path st1 = (Inr g, st3)
                   \<and> (\<not> truthy g \<or> g = PyStr ''Upload failed'')))
   \<and> (files st file_path = None
     \<longrightarrow> upload_file cfg env file_path st = Some (Inl ''FileNotFoundError'', st))"
proof (intro conjI impI)
  assume "RCLONE_REMOTE cfg \<noteq> [] \<and> upload_rclone cfg env file_path st = Some (Inr (Some u), st1)
      \<and> u \<noteq> []"
  then show "upload_file cfg env file_path st = Some (Inr (PyStr u), st1)"
    by (intro upload_file_rclone) simp_all
next
  assume h: "RCLONE_REMOTE cfg \<noteq> [] \<and> files st file_path = Some content
      \<and> (\<forall>j<k. reported_present env (remote_dest cfg @ ''/'' @ versioned (basename file_path) j))
      \<and> lsf env (remote_dest cfg @ ''/'' @ versioned (basename file_path) k) \<noteq> None
      \<and> \<not> reported_present env (remote_dest cfg @ ''/'' @ versioned (basename file_path) k)
      \<and> (0 < k \<longrightarrow> copy2_outcome env file_path (local_copy file_path k) = Copied
                    \<and> \<not> remove_fails env (local_copy file_path k))
      \<and> copy env (local_copy file_path k) (remote_dest cfg) = Some 0
      \<and> link env (remote_dest cfg @ ''/'' @ versioned (basename file_path) k) = Some lr
      \<and> (fst lr = 0 \<longrightarrow> strip (snd lr) \<noteq> [])"
  show "upload_file cfg env file_path st
           = Some (Inr (PyStr (if fst lr = 0 then strip (snd lr)
                               else remote_dest cfg @ ''/'' @ versioned (basename file_path) k)),
                   st\<lparr>files := (if k = 0 then files st
                                 else (files st)(local_copy file_path k := None)),
                      trace := trace st @ transfer_events cfg file_path k 0\<rparr>)"
    by (rule upload_file_linked) (use h in simp_all)
next
  assume "RCLONE_REMOTE cfg = [] \<and> upload_gofile env file_path st = (Inr g, st2)"
  then show "upload_file cfg env file_path st
           = Some (Inr (if truthy g then g else PyStr ''Upload failed''), st2)"
    by (intro upload_file_unconfigured) simp_all
next
  assume "RCLONE_REMOTE cfg \<noteq> [] \<and> upload_rclone cfg env file_path st = Some (Inr u', st1')
      \<and> (u' = None \<or> u' = Some []) \<and> upload_gofile env file_path st1' = (Inr g', st2')"
  then show "upload_file cfg env file_path st
           = Some (Inr (if truthy g' then g' else PyStr ''Upload failed''), st2')"
    by (intro upload_file_after_rclone[of cfg env file_path st u' st1']) simp_all
next
  assume "upload_file cfg env file_path st = Some (Inr (PyStr ''Upload failed''), st3)"
  then show "(RCLONE_REMOTE cfg \<noteq> []
           \<and> upload_rclone cfg env file_path st = Some (Inr (Some ''Upload failed''), st3))
         \<or> (\<exists>st1 g. ((RCLONE_REMOTE cfg = [] \<and> st1 = st)
                       \<or> (RCLONE_REMOTE cfg \<noteq> []
                           \<and> (\<exists>u. upload_rclone cfg env file_path st = Some (Inr u, st1)
                                    \<and> (u = None \<or> u = Some []))))
                   \<and> upload_gofile env file_path st1 = (Inr g, st3)
                   \<and> (\<not> truthy g \<or> g = PyStr ''Upload failed''))"
    by (rule upload_file_failed)
next
  assume "files st file_path = None"
  then show "upload_file cfg env file_path st = Some (Inl ''FileNotFoundError'', st)"
    by (rule upload_file_missing)
qed


lemma built_file: "files built ''/out/axion-1.zip'' = Some ''PK''"
  by (simp add: built_def)

lemma gofile_down:
  "upload_gofile all_down ''/out/axion-1.zip'' (built\<lparr>trace := tr\<rparr>)
     = (Inr PyNone, built\<lparr>trace := tr @ [GoFileServers]\<rparr>)"
  by (simp add: upload_gofile_cases built_def all_down_def transfer_fails_def)

lemma gofile_up:
  "upload_gofile transfer_fails ''/out/axion-1.zip'' (built\<lparr>trace := tr\<rparr>)
     = (Inr (PyStr ''https://gofile.io/d/abc''),
        built\<lparr>trace := tr @ [GoFileServers, GoFileUpload ''store1'' ''/out/axion-1.zip'']\<rparr>)"
  by (simp add: upload_gofile_cases built_def transfer_fails_def)

lemma built_id: "built\<lparr>trace := []\<rparr> = built"
  by (simp add: built_def sample_state_def)

lemma rclone_transfer_fails:
  "upload_rclone sample_config transfer_fails ''/out/axion-1.zip'' built
     = Some (Inr None, built\<lparr>trace := [RcloneLsf ''gdrive:roms/axion-1.zip'',
                                          RcloneCopy ''/out/axion-1.zip'' ''gdrive:roms'']\<rparr>)"
  "upload_rclone sample_config all_down ''/out/axion-1.zip'' built
     = Some (Inr None, built\<lparr>trace := [RcloneLsf ''gdrive:roms/axion-1.zip'',
                                          RcloneCopy ''/out/axion-1.zip'' ''gdrive:roms'']\<rparr>)"
proof -
  have l0: "local_copy ''/out/axion-1.zip'' 0 = ''/out/axion-1.zip''" by (simp add: local_copy_def)
  have 1: "upload_rclone sample_config transfer_fails ''/out/axion-1.zip'' built
     = Some (transfer_result transfer_fails
               (remote_dest sample_config @ ''/'' @ versioned (basename ''/out/axion-1.zip'') 0) 1,
             built\<lparr>files := (if (0::nat) = 0 then files built
                              else (files built)(local_copy ''/out/axion-1.zip'' 0 := None)),
                   trace := trace built @ transfer_events sample_config ''/out/axion-1.zip'' 0 1\<rparr>)"
    by (rule upload_rclone_run[OF built_file])
       (simp_all add: l0 sample_names transfer_fails_def reported_present_def strip_def)
  have 2: "upload_rclone sample_config all_down ''/out/axion-1.zip'' built
     = Some (transfer_result all_down
               (remote_dest sample_config @ ''/'' @ versioned (basename ''/out/axion-1.zip'') 0) 1,
             built\<lparr>files := (if (0::nat) = 0 then files built
                              else (files built)(local_copy ''/out/axion-1.zip'' 0 := None)),
                   trace := trace built @ transfer_events sample_config ''/out/axion-1.zip'' 0 1\<rparr>)"
    by (rule upload_rclone_run[OF built_file])
       (simp_all add: l0 sample_names all_down_def transfer_fails_def reported_present_def strip_def)
  have b: "built\<lparr>files := files built, trace := tr\<rparr> = built\<lparr>trace := tr\<rparr>" for tr
    by simp
  show "upload_rclone sample_config transfer_fails ''/out/axion-1.zip'' built
     = Some (Inr None, built\<lparr>trace := [RcloneLsf ''gdrive:roms/axion-1.zip'',
                                          RcloneCopy ''/out/axion-1.zip'' ''gdrive:roms'']\<rparr>)"
    unfolding 1 by (simp add: transfer_result_def transfer_events_def sample_names l0 built_trace)
  show "upload_rclone sample_config all_down ''/out/axion-1.zip'' built
     = Some (Inr None, built\<lparr>trace := [RcloneLsf ''gdrive:roms/axion-1.zip'',
                                          RcloneCopy ''/out/axion-1.zip'' ''gdrive:roms'']\<rparr>)"
    unfolding 2 by (simp add: transfer_result_def transfer_events_def sample_names l0 built_trace)
qed


lemma rclone_one_taken:
  "upload_rclone sample_config one_taken ''/out/axion-1.zip'' built
     = Some (Inr (Some ''https://drive.example/f/1''),
             built\<lparr>files := (files built)(''/out/axion-1 (1).zip'' := None),
                   trace := [RcloneLsf ''gdrive:roms/axion-1.zip'',
                             RcloneLsf ''gdrive:roms/axion-1 (1).zip'',
                             Copy2 ''/out/axion-1.zip'' ''/out/axion-1 (1).zip'',
                             RcloneCopy ''/out/axion-1 (1).zip'' ''gdrive:roms'',
                             Remove ''/out/axion-1 (1).zip'',
                             RcloneLink ''gdrive:roms/axion-1 (1).zip'']\<rparr>)"
proof -
  have "upload_rclone sample_config one_taken ''/out/axion-1.zip'' built
     = Some (transfer_result one_taken
               (remote_dest sample_config @ ''/'' @ versioned (basename ''/out/axion-1.zip'') (Suc 0)) 0,
             built\<lparr>files := (if Suc 0 = 0 then files built
                              else (files built)(local_copy ''/out/axion-1.zip'' (Suc 0) := None)),
                   trace := trace built
                            @ transfer_events sample_config ''/out/axion-1.zip'' (Suc 0) 0\<rparr>)"
    by (rule upload_rclone_run[OF built_file])
       (simp_all add: sample_names one_taken_def reported_present_def strip_def is_space_def)
  then show ?thesis
    by (simp add: sample_names transfer_result_def transfer_events_def strip_link
          one_taken_def[THEN arg_cong, of link] built_trace)
qed


text \<open>
  C1 as stated has \<open>Upload failed\<close> returned only when both paths were tried. With no
  remote configured and the public host down, it is returned after the public host alone
  was tried.
\<close>

theorem upload_failed_without_remote:
  "upload_file no_remote all_down ''/out/axion-1.zip'' built
     = Some (Inr (PyStr ''Upload failed''), built\<lparr>trace := [GoFileServers]\<rparr>)"
  using gofile_down[of "[]"]
  by (simp add: upload_file_def no_remote_def sample_config_def built_id truthy_def)

text \<open>
  The link of the remote storage, and the remote path when no link can be had; the page
  of the public host when no remote is configured, and when the transfer to the remote
  fails; \<open>Upload failed\<close> when the public host is down as well; and a file that does
  not exist.
\<close>

theorem upload_file_fallback_witness:
  "upload_file sample_config one_taken ''/out/axion-1.zip'' built
     = Some (Inr (PyStr ''https://drive.example/f/1''),
             built\<lparr>files := (files built)(''/out/axion-1 (1).zip'' := None),
                   trace := [RcloneLsf ''gdrive:roms/axion-1.zip'',
                             RcloneLsf ''gdrive:roms/axion-1 (1).zip'',
                             Copy2 ''/out/axion-1.zip'' ''/out/axion-1 (1).zip'',
                             RcloneCopy ''/out/axion-1 (1).zip'' ''gdrive:roms'',
                             Remove ''/out/axion-1 (1).zip'',
                             RcloneLink ''gdrive:roms/axion-1 (1).zip'']\<rparr>)
   \<and> upload_file sample_config no_link ''/out/axion-1.zip'' built
     = Some (Inr (PyStr ''gdrive:roms/axion-1.zip''),
             built\<lparr>trace := [RcloneLsf ''gdrive:roms/axion-1.zip'',
                             RcloneCopy ''/out/axion-1.zip'' ''gdrive:roms'',
                             RcloneLink ''gdrive:roms/axion-1.zip'']\<rparr>)
   \<and> upload_file no_remote transfer_fails ''/out/axion-1.zip'' built
     = Some (Inr (PyStr ''https://gofile.io/d/abc''),
             built\<lparr>trace := [GoFileServers, GoFileUpload ''store1'' ''/out/axion-1.zip'']\<rparr>)
   \<and> upload_file sample_config transfer_fails ''/out/axion-1.zip'' built
     = Some (Inr (PyStr ''https://gofile.io/d/abc''),
             built\<lparr>trace := [RcloneLsf ''gdrive:roms/axion-1.zip'',
                             RcloneCopy ''/out/axion-1.zip'' ''gdrive:roms'',
                             GoFileServers, GoFileUpload ''store1'' ''/out/axion-1.zip'']\<rparr>)
   \<and> upload_file sample_config all_down ''/out/axion-1.zip'' built
     = Some (Inr (PyStr ''Upload failed''),
             built\<lparr>trace := [RcloneLsf ''gdrive:roms/axion-1.zip'',
                             RcloneCopy ''/out/axion-1.zip'' ''gdrive:roms'',
                             GoFileServers]\<rparr>)
   \<and> (\<exists>st1 g. upload_gofile all_down ''/out/axion-1.zip'' st1
                 = (Inr g, built\<lparr>trace := [RcloneLsf ''gdrive:roms/axion-1.zip'',
                                              RcloneCopy ''/out/axion-1.zip'' ''gdrive:roms'',
                                              GoFileServers]\<rparr>))
   \<and> upload_file sample_config one_taken ''/out/missing.zip'' built
     = Some (Inl ''FileNotFoundError'', built)"
proof -
  let ?fp = "''/out/axion-1.zip''"
  let ?linked = "built\<lparr>files := (files built)(''/out/axion-1 (1).zip'' := None),
                   trace := [RcloneLsf ''gdrive:roms/axion-1.zip'',
                             RcloneLsf ''gdrive:roms/axion-1 (1).zip'',
                             Copy2 ''/out/axion-1.zip'' ''/out/axion-1 (1).zip'',
                             RcloneCopy ''/out/axion-1 (1).zip'' ''gdrive:roms'',
                             Remove ''/out/axion-1 (1).zip'',
                             RcloneLink ''gdrive:roms/axion-1 (1).zip'']\<rparr>"
  let ?tried = "built\<lparr>trace := [RcloneLsf ''gdrive:roms/axion-1.zip'',
                                   RcloneCopy ''/out/axion-1.zip'' ''gdrive:roms'']\<rparr>"
  let ?failed = "built\<lparr>trace := [RcloneLsf ''gdrive:roms/axion-1.zip'',
                                    RcloneCopy ''/out/axion-1.zip'' ''gdrive:roms'',
                                    GoFileServers]\<rparr>"
  have remote: "RCLONE_REMOTE sample_config \<noteq> []" by (simp add: sample_config_def)
  have none: "RCLONE_REMOTE no_remote = []" by (simp add: no_remote_def)
  have h1: "RCLONE_REMOTE sample_config \<noteq> []
      \<and> upload_rclone sample_config one_taken ?fp built
          = Some (Inr (Some ''https://drive.example/f/1''), ?linked)
      \<and> ''https://drive.example/f/1'' \<noteq> []"
    using remote rclone_one_taken by simp
  have w1: "upload_file sample_config one_taken ?fp built
      = Some (Inr (PyStr ''https://drive.example/f/1''), ?linked)"
    by (rule upload_file_fallback
          [where cfg = sample_config and env = one_taken and file_path = ?fp and st = built
             and u = "''https://drive.example/f/1''" and ?st1.0 = ?linked,
           THEN conjunct1, THEN mp, OF h1])
  have h3: "RCLONE_REMOTE no_remote = []
      \<and> upload_gofile transfer_fails ?fp built
          = (Inr (PyStr ''https://gofile.io/d/abc''),
             built\<lparr>trace := [GoFileServers, GoFileUpload ''store1'' ''/out/axion-1.zip'']\<rparr>)"
    using none gofile_up[of "[]"] by (simp add: built_id)
  have w2: "upload_file no_remote transfer_fails ?fp built
      = Some (Inr (PyStr ''https://gofile.io/d/abc''),
              built\<lparr>trace := [GoFileServers, GoFileUpload ''store1'' ''/out/axion-1.zip'']\<rparr>)"
    using upload_file_fallback
          [where cfg = no_remote and env = transfer_fails and file_path = ?fp and st = built
             and g = "PyStr ''https://gofile.io/d/abc''"
             and ?st2.0 = "built\<lparr>trace := [GoFileServers, GoFileUpload ''store1'' ''/out/axion-1.zip'']\<rparr>",
           THEN conjunct2, THEN conjunct2, THEN conjunct1, THEN mp, OF h3]
    by (simp add: truthy_def)
  have h4: "RCLONE_REMOTE sample_config \<noteq> []
      \<and> upload_rclone sample_config transfer_fails ?fp built = Some (Inr None, ?tried)
      \<and> (None = None \<or> None = Some [])
      \<and> upload_gofile transfer_fails ?fp ?tried
          = (Inr (PyStr ''https://gofile.io/d/abc''),
             built\<lparr>trace := [RcloneLsf ''gdrive:roms/axion-1.zip'',
                             RcloneCopy ''/out/axion-1.zip'' ''gdrive:roms'',
                             GoFileServers, GoFileUpload ''store1'' ''/out/axion-1.zip'']\<rparr>)"
    using remote rclone_transfer_fails(1) gofile_up by simp
  have w3: "upload_file sample_config transfer_fails ?fp built
      = Some (Inr (PyStr ''https://gofile.io/d/abc''),
              built\<lparr>trace := [RcloneLsf ''gdrive:roms/axion-1.zip'',
                              RcloneCopy ''/out/axion-1.zip'' ''gdrive:roms'',
                              GoFileServers, GoFileUpload ''store1'' ''/out/axion-1.zip'']\<rparr>)"
    using upload_file_fallback
          [where cfg = sample_config and env = transfer_fails and file_path = ?fp and st = built
             and u' = None and st1' = ?tried and g' = "PyStr ''https://gofile.io/d/abc''"
             and st2' = "built\<lparr>trace := [RcloneLsf ''gdrive:roms/axion-1.zip'',
                              RcloneCopy ''/out/axion-1.zip'' ''gdrive:roms'',
                              GoFileServers, GoFileUpload ''store1'' ''/out/axion-1.zip'']\<rparr>",
           THEN conjunct2, THEN conjunct2, THEN conjunct2, THEN conjunct1, THEN mp, OF h4]
    by (simp add: truthy_def)
  have h5: "RCLONE_REMOTE sample_config \<noteq> []
      \<and> upload_rclone sample_config all_down ?fp built = Some (Inr None, ?tried)
      \<and> (None = None \<or> None = Some [])
      \<and> upload_gofile all_down ?fp ?tried = (Inr PyNone, ?failed)"
    using remote rclone_transfer_fails(2) gofile_down by simp
  have w4: "upload_file sample_config all_down ?fp built
      = Some (Inr (PyStr ''Upload failed''), ?failed)"
    using upload_file_fallback
          [where cfg = sample_config and env = all_down and file_path = ?fp and st = built
             and u' = None and st1' = ?tried and g' = PyNone and st2' = ?failed,
           THEN conjunct2, THEN conjunct2, THEN conjunct2, THEN conjunct1, THEN mp, OF h5]
    by (simp add: truthy_def)
  have "(RCLONE_REMOTE sample_config \<noteq> []
           \<and> upload_rclone sample_config all_down ?fp built
               = Some (Inr (Some ''Upload failed''), ?failed))
         \<or> (\<exists>st1 g. ((RCLONE_REMOTE sample_config = [] \<and> st1 = built)
                       \<or> (RCLONE_REMOTE sample_config \<noteq> []
                           \<and> (\<exists>u. upload_rclone sample_config all_down ?fp built
                                      = Some (Inr u, st1)
                                    \<and> (u = None \<or> u = Some []))))
                   \<and> upload_gofile all_down ?fp st1 = (Inr g, ?failed)
                   \<and> (\<not> truthy g \<or> g = PyStr ''Upload failed''))"
    by (rule upload_file_fallback
          [where cfg = sample_config and env = all_down and file_path = ?fp and st = built
             and ?st3.0 = ?failed,
           THEN conjunct2, THEN conjunct2, THEN conjunct2, THEN conjunct2, THEN conjunct1,
           THEN mp, OF w4])
  then have w5: "\<exists>st1 g. upload_gofile all_down ?fp st1 = (Inr g, ?failed)"
    unfolding rclone_transfer_fails(2) by auto
  have h6: "files built ''/out/missing.zip'' = None" by (simp add: built_def)
  have w6: "upload_file sample_config one_taken ''/out/missing.zip'' built
      = Some (Inl ''FileNotFoundError'', built)"
    by (rule upload_file_fallback
          [where cfg = sample_config and env = one_taken and file_path = "''/out/missing.zip''"
             and st = built,
           THEN conjunct2, THEN conjunct2, THEN conjunct2, THEN conjunct2, THEN conjunct2,
           THEN mp, OF h6])
  have l0: "local_copy ?fp 0 = ?fp" by (simp add: local_copy_def)
  have h2: "RCLONE_REMOTE sample_config \<noteq> [] \<and> files built ?fp = Some ''PK''
      \<and> (\<forall>j<0. reported_present no_link
                   (remote_dest sample_config @ ''/'' @ versioned (basename ?fp) j))
      \<and> lsf no_link (remote_dest sample_config @ ''/'' @ versioned (basename ?fp) 0) \<noteq> None
      \<and> \<not> reported_present no_link
             (remote_dest sample_config @ ''/'' @ versioned (basename ?fp) 0)
      \<and> ((0::nat) < 0 \<longrightarrow> copy2_outcome no_link ?fp (local_copy ?fp 0) = Copied
                    \<and> \<not> remove_fails no_link (local_copy ?fp 0))
      \<and> copy no_link (local_copy ?fp 0) (remote_dest sample_config) = Some 0
      \<and> link no_link (remote_dest sample_config @ ''/'' @ versioned (basename ?fp) 0)
          = Some (1, [])
      \<and> (fst (1::int, []::string) = 0 \<longrightarrow> strip (snd (1::int, []::string)) \<noteq> [])"
    using remote built_file
    by (simp add: l0 sample_names no_link_def one_taken_def reported_present_def strip_def)
  have w1b: "upload_file sample_config no_link ?fp built
      = Some (Inr (PyStr ''gdrive:roms/axion-1.zip''),
              built\<lparr>trace := [RcloneLsf ''gdrive:roms/axion-1.zip'',
                              RcloneCopy ''/out/axion-1.zip'' ''gdrive:roms'',
                              RcloneLink ''gdrive:roms/axion-1.zip'']\<rparr>)"
    using upload_file_fallback
          [where cfg = sample_config and env = no_link and file_path = ?fp and st = built
             and content = "''PK''" and k = 0 and lr = "(1, [])",
           THEN conjunct2, THEN conjunct1, THEN mp, OF h2]
    by (simp add: l0 sample_names transfer_events_def built_trace)
  from w1 w1b w2 w3 w4 w5 w6 show ?thesis by (intro conjI)
qed

end
